theory Spec2Isabelle
  imports Complex_Main "HOL-Library.Multiset" "HOL-Library.Multiset_Order"
begin

section \<open>Lineage ledger (src/evolution/lineage.ts)\<close>

text \<open>
  The interface \<^verbatim>\<open>AgentAncestry\<close>. Identifiers, generations and ticks are the
  non-negative integers the tracker's counters produce; \<^verbatim>\<open>deathTick: number | null\<close>
  is an option. The field \<^verbatim>\<open>id\<close> is called \<open>recId\<close> here.
\<close>

record AgentAncestry =
  recId :: nat
  parentIds :: "nat list"
  generation :: nat
  speciesId :: nat
  birthTick :: nat
  deathTick :: "nat option"
  maxFitness :: real

text \<open>The private state of the class \<^verbatim>\<open>LineageTracker\<close>; the \<^verbatim>\<open>Map\<close> is a partial function.\<close>

record LineageTracker =
  ancestryRecords :: "nat \<rightharpoonup> AgentAncestry"
  nextAgentId :: nat
  currentGeneration :: nat
  currentTick :: nat

definition newLineageTracker :: LineageTracker where
  "newLineageTracker =
     \<lparr>ancestryRecords = Map.empty, nextAgentId = 1, currentGeneration = 1, currentTick = 0\<rparr>"

definition registerBirth :: "LineageTracker \<Rightarrow> nat list \<Rightarrow> nat \<Rightarrow> nat \<times> LineageTracker" where
  "registerBirth t pids sid =
     (let i = nextAgentId t;
          r = \<lparr>recId = i, parentIds = pids, generation = currentGeneration t, speciesId = sid,
               birthTick = currentTick t, deathTick = None, maxFitness = 0\<rparr>
      in (i, t\<lparr>ancestryRecords := (ancestryRecords t)(i \<mapsto> r), nextAgentId := i + 1\<rparr>))"

definition registerDeath :: "LineageTracker \<Rightarrow> nat \<Rightarrow> real \<Rightarrow> LineageTracker" where
  "registerDeath t agentId finalFitness =
     (case ancestryRecords t agentId of
        None \<Rightarrow> t
      | Some record \<Rightarrow>
          t\<lparr>ancestryRecords := (ancestryRecords t)(agentId \<mapsto>
              record\<lparr>deathTick := Some (currentTick t),
                     maxFitness := max (maxFitness record) finalFitness\<rparr>)\<rparr>)"

definition updateFitness :: "LineageTracker \<Rightarrow> nat \<Rightarrow> real \<Rightarrow> LineageTracker" where
  "updateFitness t agentId fit =
     (case ancestryRecords t agentId of
        None \<Rightarrow> t
      | Some record \<Rightarrow>
          t\<lparr>ancestryRecords := (ancestryRecords t)(agentId \<mapsto>
              record\<lparr>maxFitness := max (maxFitness record) fit\<rparr>)\<rparr>)"

definition lineageAdvanceGeneration :: "LineageTracker \<Rightarrow> LineageTracker" where
  "lineageAdvanceGeneration t = t\<lparr>currentGeneration := currentGeneration t + 1\<rparr>"

definition updateTick :: "LineageTracker \<Rightarrow> nat \<Rightarrow> LineageTracker" where
  "updateTick t tick = t\<lparr>currentTick := tick\<rparr>"

definition addRecordDirect :: "LineageTracker \<Rightarrow> AgentAncestry \<Rightarrow> LineageTracker" where
  "addRecordDirect t record = t\<lparr>ancestryRecords := (ancestryRecords t)(recId record \<mapsto> record)\<rparr>"

text \<open>
  The queue loop of \<^verbatim>\<open>getAncestors\<close>: \<^verbatim>\<open>queue.shift()\<close> takes the head,
  \<^verbatim>\<open>queue.push(...parentRecord.parentIds)\<close> appends at the end. On a ledger with a cycle
  the loop of the source never ends, so the loop is a partial function and not returning
  is the value \<open>None\<close>.
\<close>

partial_function (option) ancestorsLoop ::
  "(nat \<rightharpoonup> AgentAncestry) \<Rightarrow> nat list \<Rightarrow> AgentAncestry list \<Rightarrow> AgentAncestry list option" where
  "ancestorsLoop recs queue ancestors =
     (case queue of
        [] \<Rightarrow> Some ancestors
      | parentId # rest \<Rightarrow>
          (case recs parentId of
             None \<Rightarrow> ancestorsLoop recs rest ancestors
           | Some parentRecord \<Rightarrow>
               ancestorsLoop recs (rest @ parentIds parentRecord) (ancestors @ [parentRecord])))"

definition getAncestors :: "LineageTracker \<Rightarrow> nat \<Rightarrow> AgentAncestry list option" where
  "getAncestors t agentId =
     (case ancestryRecords t agentId of
        None \<Rightarrow> Some []
      | Some record \<Rightarrow> ancestorsLoop (ancestryRecords t) (parentIds record) [])"

text \<open>
  The structural invariant of the ledger: a record is stored under its own id, and each
  of its parent ids is strictly smaller than that id.
\<close>

definition lineageDag :: "(nat \<rightharpoonup> AgentAncestry) \<Rightarrow> bool" where
  "lineageDag recs \<longleftrightarrow>
     (\<forall>k r. recs k = Some r \<longrightarrow> recId r = k \<and> (\<forall>p \<in> set (parentIds r). p < k))"

section \<open>Errors and the random source\<close>

text \<open>
  The exceptions of the modelled code: the \<^verbatim>\<open>Error\<close> that \<^verbatim>\<open>crossover\<close> and
  \<^verbatim>\<open>geneticDistance\<close> throw on genomes of different lengths, and the error with which
  the constructor of the neural network ends when a layer is asked for without a positive
  number of units.
\<close>

datatype error = GenomeLengthMismatch | InvalidLayerUnits

text \<open>
  \<^verbatim>\<open>Math.random()\<close> is an explicit oracle: \<open>rnd j\<close> is the value of the \<open>j\<close>-th call.
  A function that draws takes the oracle and the index \<open>k\<close> of its first call and returns
  the index after its last one. JavaScript numbers are modelled as reals (identifiers,
  counters and lengths as naturals).
\<close>

type_synonym rng = "nat \<Rightarrow> real"

section \<open>Vector utilities (src/utils/math.ts)\<close>

text \<open>The fields \<^verbatim>\<open>x\<close> and \<^verbatim>\<open>y\<close> of \<^verbatim>\<open>Vector2D\<close> are \<open>xc\<close> and \<open>yc\<close>.\<close>

record Vector2D =
  xc :: real
  yc :: real

definition createVector :: "real \<Rightarrow> real \<Rightarrow> Vector2D" where
  "createVector a b = \<lparr>xc = a, yc = b\<rparr>"

definition addVectors :: "Vector2D \<Rightarrow> Vector2D \<Rightarrow> Vector2D" where
  "addVectors v1 v2 = \<lparr>xc = xc v1 + xc v2, yc = yc v1 + yc v2\<rparr>"

definition subtractVectors :: "Vector2D \<Rightarrow> Vector2D \<Rightarrow> Vector2D" where
  "subtractVectors v1 v2 = \<lparr>xc = xc v1 - xc v2, yc = yc v1 - yc v2\<rparr>"

definition multiplyVector :: "Vector2D \<Rightarrow> real \<Rightarrow> Vector2D" where
  "multiplyVector v scalar = \<lparr>xc = xc v * scalar, yc = yc v * scalar\<rparr>"

definition divideVector :: "Vector2D \<Rightarrow> real \<Rightarrow> Vector2D" where
  "divideVector v scalar = \<lparr>xc = xc v / scalar, yc = yc v / scalar\<rparr>"

definition magnitudeVector :: "Vector2D \<Rightarrow> real" where
  "magnitudeVector v = sqrt (xc v * xc v + yc v * yc v)"

definition normalizeVector :: "Vector2D \<Rightarrow> Vector2D" where
  "normalizeVector v =
     (let mag = magnitudeVector v
      in if mag = 0 then \<lparr>xc = 0, yc = 0\<rparr> else divideVector v mag)"

definition limitVector :: "Vector2D \<Rightarrow> real \<Rightarrow> Vector2D" where
  "limitVector v mx =
     (let mag = magnitudeVector v
      in if mag > mx then multiplyVector (normalizeVector v) mx else v)"

definition distanceBetween :: "Vector2D \<Rightarrow> Vector2D \<Rightarrow> real" where
  "distanceBetween v1 v2 = magnitudeVector (subtractVectors v1 v2)"

section \<open>Configuration (src/cfg.ts)\<close>

text \<open>
  The configuration object is mutable (the renderer overwrites the world bounds), so the
  functions take it as a parameter; \<open>config\<close> holds the values of the file.
\<close>

record Config =
  worldWidth :: real
  worldHeight :: real
  initialAgentCount :: nat
  initialFoodCount :: nat
  agentSize :: real
  agentMaxSpeed :: real
  agentMaxForce :: real
  agentMaxEnergy :: real
  agentMetabolismRate :: real
  agentReproductionEnergy :: real
  inputNeurons :: nat
  hiddenNeurons :: "nat list"
  outputNeurons :: nat
  cfgMutationRate :: real
  cfgMutationAmount :: real

definition config :: Config where
  "config =
     \<lparr>worldWidth = 800, worldHeight = 600, initialAgentCount = 50, initialFoodCount = 100,
      agentSize = 10, agentMaxSpeed = 2, agentMaxForce = 1/10, agentMaxEnergy = 100,
      agentMetabolismRate = 1/10, agentReproductionEnergy = 70,
      inputNeurons = 12, hiddenNeurons = [16, 12], outputNeurons = 3,
      cfgMutationRate = 5/100, cfgMutationAmount = 1/10\<rparr>"

section \<open>Genome (src/evolution/genome.ts)\<close>

record Genome =
  weights :: "real list"
  mutationRate :: real

text \<open>\<^verbatim>\<open>new Genome(weights?, mutationRate = 0.05)\<close>\<close>

definition newGenome :: "real list \<Rightarrow> Genome" where
  "newGenome ws = \<lparr>weights = ws, mutationRate = 5/100\<rparr>"

definition Genome_random :: "rng \<Rightarrow> nat \<Rightarrow> nat \<Rightarrow> Genome \<times> nat" where
  "Genome_random rnd k n = (newGenome (map (\<lambda>i. rnd (k + i) * 2 - 1) [0..<n]), k + n)"

definition Genome_copy :: "Genome \<Rightarrow> Genome" where
  "Genome_copy g = \<lparr>weights = weights g, mutationRate = mutationRate g\<rparr>"

text \<open>
  The constructor of \<^verbatim>\<open>NeuralNetwork\<close> (src/neural/network.ts) adds a dense layer of
  \<^verbatim>\<open>hiddenSizes[0]\<close> units, a dense layer for every further hidden size and the output
  layer. The layers come from TensorFlow.js, whose \<^verbatim>\<open>tf.layers.dense\<close> takes a positive
  integer as \<^verbatim>\<open>units\<close> and throws on anything else; \<^verbatim>\<open>hiddenSizes[0]\<close> of an empty
  array is \<^verbatim>\<open>undefined\<close>, so without a hidden layer the constructor throws. Of a network
  that was built, the units of its layers are kept; what it computes is the evaluator that
  the functions of the agent take as a parameter.
\<close>

definition newNeuralNetwork :: "nat \<Rightarrow> nat list \<Rightarrow> nat \<Rightarrow> error + nat list" where
  "newNeuralNetwork inputSize hiddenSizes outputSize =
     (if hiddenSizes = [] \<or> 0 \<in> set hiddenSizes \<or> outputSize = 0 then Inl InvalidLayerUnits
      else Inr (hiddenSizes @ [outputSize]))"

text \<open>
  \<^verbatim>\<open>createNetwork\<close> builds the network and, for a genome that has weights, hands them
  to \<^verbatim>\<open>setWeights\<close>, which cuts them into the tensors of the layers. Its one caller, the
  constructor of the agent, passes a genome of exactly the number of weights that the
  layers take.
\<close>

definition Genome_createNetwork :: "Genome \<Rightarrow> nat \<Rightarrow> nat list \<Rightarrow> nat \<Rightarrow> error + nat list" where
  "Genome_createNetwork g inputSize hiddenSizes outputSize =
     newNeuralNetwork inputSize hiddenSizes outputSize"

text \<open>
  \<^verbatim>\<open>randomNormal\<close>: each of the two loops draws until the value is not zero, so on an
  oracle that stays at zero it does not return.
\<close>

partial_function (option) drawNonzero :: "rng \<Rightarrow> nat \<Rightarrow> (real \<times> nat) option" where
  "drawNonzero rnd k = (if rnd k = 0 then drawNonzero rnd (k + 1) else Some (rnd k, k + 1))"

definition randomNormal :: "rng \<Rightarrow> nat \<Rightarrow> (real \<times> nat) option" where
  "randomNormal rnd k =
     (case drawNonzero rnd k of
        None \<Rightarrow> None
      | Some (u, k1) \<Rightarrow>
          (case drawNonzero rnd k1 of
             None \<Rightarrow> None
           | Some (v, k2) \<Rightarrow> Some (sqrt (- 2 * ln u) * cos (2 * pi * v), k2)))"

text \<open>
  The self-adaptive \<^verbatim>\<open>mutate\<close> of genome.ts. First the rate: with a draw below 0.1 it
  moves by up to half of its value and is clamped to [0.001, 0.3]. Then the weights, each
  with probability the new rate, by a normal sample times 0.2.
\<close>

definition adaptRate :: "rng \<Rightarrow> nat \<Rightarrow> real \<Rightarrow> real \<times> nat" where
  "adaptRate rnd k rate =
     (if rnd k < 1/10
      then (let rateChange = (rnd (k + 1) * 2 - 1) * (1/2) * rate
            in (max (1/1000) (min (3/10) (rate + rateChange)), k + 2))
      else (rate, k + 1))"

fun adaptWeights :: "rng \<Rightarrow> nat \<Rightarrow> real \<Rightarrow> real list \<Rightarrow> (real list \<times> nat) option" where
  "adaptWeights rnd k rate [] = Some ([], k)"
| "adaptWeights rnd k rate (w # ws) =
     (if rnd k < rate
      then (case randomNormal rnd (k + 1) of
              None \<Rightarrow> None
            | Some (z, k1) \<Rightarrow>
                (case adaptWeights rnd k1 rate ws of
                   None \<Rightarrow> None
                 | Some (ws', k2) \<Rightarrow> Some ((w + z * (2/10)) # ws', k2)))
      else (case adaptWeights rnd (k + 1) rate ws of
              None \<Rightarrow> None
            | Some (ws', k2) \<Rightarrow> Some (w # ws', k2)))"

definition mutateSelfAdaptive :: "rng \<Rightarrow> nat \<Rightarrow> Genome \<Rightarrow> (Genome \<times> nat) option" where
  "mutateSelfAdaptive rnd k genome =
     (let newG = Genome_copy genome;
          (rate, k1) = adaptRate rnd k (mutationRate genome)
      in case adaptWeights rnd k1 rate (weights newG) of
           None \<Rightarrow> None
         | Some (ws, k2) \<Rightarrow> Some (newG\<lparr>weights := ws, mutationRate := rate\<rparr>, k2))"

text \<open>A run of self-adaptive mutations, each applied to the result of the one before.\<close>

fun mutateRepeatedly :: "nat \<Rightarrow> rng \<Rightarrow> nat \<Rightarrow> Genome \<Rightarrow> (Genome \<times> nat) option" where
  "mutateRepeatedly 0 rnd k genome = Some (genome, k)"
| "mutateRepeatedly (Suc n) rnd k genome =
     (case mutateSelfAdaptive rnd k genome of
        None \<Rightarrow> None
      | Some (g, k1) \<Rightarrow> mutateRepeatedly n rnd k1 g)"

text \<open>
  An oracle on which the loops of \<^verbatim>\<open>randomNormal\<close> end: after every call there is a
  later one that is not zero.
\<close>

definition liveOracle :: "rng \<Rightarrow> bool" where
  "liveOracle rnd \<longleftrightarrow> (\<forall>k. \<exists>j. rnd (k + j) \<noteq> 0)"

section \<open>Genetic operators (src/evolution/mutation.ts)\<close>

datatype CrossoverType = UNIFORM | SINGLE_POINT | MULTI_POINT

text \<open>The loop of the operator-level \<^verbatim>\<open>mutate\<close>: one draw per weight, a second one when it mutates.\<close>

fun mutateWeights :: "rng \<Rightarrow> nat \<Rightarrow> real \<Rightarrow> real \<Rightarrow> real list \<Rightarrow> real list \<times> nat" where
  "mutateWeights rnd k rate amount [] = ([], k)"
| "mutateWeights rnd k rate amount (w # ws) =
     (if rnd k < rate
      then (let (ws', k') = mutateWeights rnd (k + 2) rate amount ws
            in ((w + (rnd (k + 1) * 2 - 1) * amount) # ws', k'))
      else (let (ws', k') = mutateWeights rnd (k + 1) rate amount ws
            in (w # ws', k')))"

definition mutate :: "rng \<Rightarrow> nat \<Rightarrow> Genome \<Rightarrow> real \<Rightarrow> real \<Rightarrow> Genome \<times> nat" where
  "mutate rnd k genome rate amount =
     (let newG = Genome_copy genome;
          (ws, k') = mutateWeights rnd k rate amount (weights newG)
      in (newG\<lparr>weights := ws\<rparr>, k'))"

text \<open>\<^verbatim>\<open>Math.floor(Math.random() * n)\<close>\<close>

definition randomIndex :: "rng \<Rightarrow> nat \<Rightarrow> nat \<Rightarrow> nat" where
  "randomIndex rnd k n = nat \<lfloor>rnd k * real n\<rfloor>"

text \<open>
  MULTI_POINT: at each point, the tail of the child from that point on is overwritten
  with the genes of the parent whose turn it is (parent 2 first), and the turn changes.
\<close>

definition overwriteFrom :: "nat \<Rightarrow> real list \<Rightarrow> real list \<Rightarrow> real list" where
  "overwriteFrom point child parent = take point child @ drop point parent"

fun applyPoints :: "nat list \<Rightarrow> nat \<Rightarrow> real list \<Rightarrow> real list \<Rightarrow> real list \<Rightarrow> real list" where
  "applyPoints [] currentParent child w1 w2 = child"
| "applyPoints (point # points) currentParent child w1 w2 =
     (if currentParent = 2
      then applyPoints points 1 (overwriteFrom point child w2) w1 w2
      else applyPoints points 2 (overwriteFrom point child w1) w1 w2)"

definition crossover ::
  "rng \<Rightarrow> nat \<Rightarrow> Genome \<Rightarrow> Genome \<Rightarrow> CrossoverType \<Rightarrow> error + Genome \<times> nat" where
  "crossover rnd k parent1 parent2 crossoverType =
     (if length (weights parent1) \<noteq> length (weights parent2) then Inl GenomeLengthMismatch
      else
        (let len = length (weights parent1) in
         case crossoverType of
           UNIFORM \<Rightarrow>
             Inr (newGenome
                    (map (\<lambda>i. if rnd (k + i) < 1/2 then weights parent1 ! i else weights parent2 ! i)
                       [0..<len]),
                  k + len)
         | SINGLE_POINT \<Rightarrow>
             (let crossPoint = randomIndex rnd k len
              in Inr (newGenome (take crossPoint (weights parent1) @ drop crossPoint (weights parent2)),
                      k + 1))
         | MULTI_POINT \<Rightarrow>
             (let numPoints = randomIndex rnd k 3 + 2;
                  points = sort (map (\<lambda>j. randomIndex rnd (k + 1 + j) len) [0..<numPoints])
              in Inr (newGenome (applyPoints points 2 (weights parent1) (weights parent1) (weights parent2)),
                      k + 1 + numPoints))))"

section \<open>Species (src/evolution/species.ts)\<close>

text \<open>
  The class \<^verbatim>\<open>Species\<close>: \<^verbatim>\<open>id\<close> is \<open>spId\<close>; of the colour only the random hue is
  kept, and the name (derived from the id) is left out.
\<close>

record Species =
  spId :: nat
  members :: "nat list"
  representative :: Genome
  hue :: nat
  creationGeneration :: nat
  lastImprovedGeneration :: nat
  bestFitness :: real

definition newSpecies :: "rng \<Rightarrow> nat \<Rightarrow> nat \<Rightarrow> Genome \<Rightarrow> nat \<Rightarrow> nat \<Rightarrow> Species \<times> nat" where
  "newSpecies rnd k sid rep gen firstMemberId =
     (\<lparr>spId = sid, members = [firstMemberId], representative = Genome_copy rep,
       hue = randomIndex rnd k 360, creationGeneration = gen, lastImprovedGeneration = gen,
       bestFitness = 0\<rparr>, k + 1)"

definition addMember :: "Species \<Rightarrow> nat \<Rightarrow> Species" where
  "addMember s agentId =
     (if agentId \<in> set (members s) then s else s\<lparr>members := members s @ [agentId]\<rparr>)"

definition Species_updateFitness :: "Species \<Rightarrow> real \<Rightarrow> Species" where
  "Species_updateFitness s fit = (if fit > bestFitness s then s\<lparr>bestFitness := fit\<rparr> else s)"

definition geneticDistance :: "Genome \<Rightarrow> Genome \<Rightarrow> error + real" where
  "geneticDistance genomeA genomeB =
     (if length (weights genomeA) \<noteq> length (weights genomeB) then Inl GenomeLengthMismatch
      else Inr (sqrt (\<Sum>i \<leftarrow> [0..<length (weights genomeA)].
                        (weights genomeA ! i - weights genomeB ! i)
                        * (weights genomeA ! i - weights genomeB ! i))))"

record SpeciesManager =
  species :: "Species list"
  nextSpeciesId :: nat
  speciesGeneration :: nat

definition newSpeciesManager :: SpeciesManager where
  "newSpeciesManager = \<lparr>species = [], nextSpeciesId = 1, speciesGeneration = 1\<rparr>"

definition distanceThreshold :: real where
  "distanceThreshold = 4"

text \<open>
  The scan of \<^verbatim>\<open>assignSpecies\<close>: the position in the array of the first species whose
  representative is closer than the threshold. A species of another genome length makes
  \<^verbatim>\<open>geneticDistance\<close> throw when the scan reaches it.
\<close>

fun findSpecies :: "Genome \<Rightarrow> Species list \<Rightarrow> nat \<Rightarrow> error + nat option" where
  "findSpecies genome [] i = Inr None"
| "findSpecies genome (existingSpecies # rest) i =
     (case geneticDistance genome (representative existingSpecies) of
        Inl e \<Rightarrow> Inl e
      | Inr distance \<Rightarrow>
          if distance < distanceThreshold then Inr (Some i)
          else findSpecies genome rest (i + 1))"

text \<open>
  \<^verbatim>\<open>assignSpecies\<close> returns the species object; here, its position in the array of the
  manager.
\<close>

definition assignSpecies ::
  "SpeciesManager \<Rightarrow> rng \<Rightarrow> nat \<Rightarrow> Genome \<Rightarrow> nat \<Rightarrow> error + nat \<times> SpeciesManager \<times> nat" where
  "assignSpecies m rnd k genome agentId =
     (case findSpecies genome (species m) 0 of
        Inl e \<Rightarrow> Inl e
      | Inr None \<Rightarrow>
          (let (sp, k') = newSpecies rnd k (nextSpeciesId m) genome (speciesGeneration m) agentId
           in Inr (length (species m),
                   m\<lparr>species := species m @ [sp], nextSpeciesId := nextSpeciesId m + 1\<rparr>, k'))
      | Inr (Some i) \<Rightarrow>
          Inr (i, m\<lparr>species := (species m)[i := addMember (species m ! i) agentId]\<rparr>, k))"

definition speciesAdvanceGeneration :: "SpeciesManager \<Rightarrow> SpeciesManager" where
  "speciesAdvanceGeneration m =
     m\<lparr>speciesGeneration := speciesGeneration m + 1,
       species := map (\<lambda>s. s\<lparr>members := []\<rparr>) (species m)\<rparr>"

text \<open>
  \<^verbatim>\<open>createSpecies\<close> and \<^verbatim>\<open>clearAllSpecies\<close>, which the loading of a saved state
  calls: the species gets the id it is given, and the id counter is not touched.
\<close>

definition clearAllSpecies :: "SpeciesManager \<Rightarrow> SpeciesManager" where
  "clearAllSpecies m = m\<lparr>species := []\<rparr>"

definition createSpecies ::
  "SpeciesManager \<Rightarrow> rng \<Rightarrow> nat \<Rightarrow> nat \<Rightarrow> Genome \<Rightarrow> nat \<Rightarrow> nat \<times> SpeciesManager \<times> nat" where
  "createSpecies m rnd k sid rep gen =
     (let (sp, k') = newSpecies rnd k sid rep gen 0
      in (length (species m), m\<lparr>species := species m @ [sp]\<rparr>, k'))"

section \<open>Loading the species of a saved state (src/persistence/simulation-saver.ts)\<close>

text \<open>
  What \<^verbatim>\<open>restoreSpecies\<close> reads of an entry of the saved species array; of the colour,
  the hue.
\<close>

record SavedSpecies =
  savedId :: nat
  savedRepresentative :: Genome
  savedCreationGeneration :: nat
  savedLastImprovedGeneration :: nat
  savedBestFitness :: real
  savedHue :: nat

fun restoreEachSpecies :: "SpeciesManager \<Rightarrow> rng \<Rightarrow> nat \<Rightarrow> SavedSpecies list \<Rightarrow> SpeciesManager \<times> nat" where
  "restoreEachSpecies m rnd k [] = (m, k)"
| "restoreEachSpecies m rnd k (speciesInfo # rest) =
     (let (i, m1, k1) =
            createSpecies m rnd k (savedId speciesInfo) (savedRepresentative speciesInfo)
              (savedCreationGeneration speciesInfo);
          restored = (species m1 ! i)\<lparr>hue := savedHue speciesInfo,
                        lastImprovedGeneration := savedLastImprovedGeneration speciesInfo,
                        bestFitness := savedBestFitness speciesInfo\<rparr>
      in restoreEachSpecies (m1\<lparr>species := (species m1)[i := restored]\<rparr>) rnd k1 rest)"

definition restoreSpecies :: "SpeciesManager \<Rightarrow> rng \<Rightarrow> nat \<Rightarrow> SavedSpecies list \<Rightarrow> SpeciesManager \<times> nat" where
  "restoreSpecies m rnd k speciesData = restoreEachSpecies (clearAllSpecies m) rnd k speciesData"

section \<open>Food and obstacles (src/entities/food.ts, src/entities/obstacle.ts)\<close>

datatype FoodType = BASIC | SUPER | POISON

text \<open>The fields of \<^verbatim>\<open>Food\<close> carry a prefix; the colour is left out.\<close>

record Food =
  foodPosition :: Vector2D
  foodEnergy :: real
  foodSize :: real
  isConsumed :: bool
  foodType :: FoodType

definition newFood :: "Vector2D \<Rightarrow> FoodType \<Rightarrow> Food" where
  "newFood pos ty =
     (case ty of
        BASIC \<Rightarrow> \<lparr>foodPosition = pos, foodEnergy = 20, foodSize = 5, isConsumed = False, foodType = ty\<rparr>
      | SUPER \<Rightarrow> \<lparr>foodPosition = pos, foodEnergy = 50, foodSize = 8, isConsumed = False, foodType = ty\<rparr>
      | POISON \<Rightarrow> \<lparr>foodPosition = pos, foodEnergy = - 30, foodSize = 4, isConsumed = False, foodType = ty\<rparr>)"

record Obstacle =
  obstaclePosition :: Vector2D
  obstacleSize :: real

section \<open>Agent (src/entities/agent.ts)\<close>

text \<open>
  The class \<^verbatim>\<open>Agent\<close>. \<^verbatim>\<open>size\<close> is \<open>bodySize\<close>, \<^verbatim>\<open>id\<close> is \<open>agentId\<close>,
  \<^verbatim>\<open>parentIds\<close> is \<open>agentParentIds\<close>; \<^verbatim>\<open>species\<close>, a reference to a species object of
  the manager, is the position of that species in the manager's array. What the neural
  network computes is done by TensorFlow.js: the evaluator is a parameter \<open>predict\<close>
  from the genome's weights and the inputs to the three outputs, and the agent's
  \<^verbatim>\<open>brain\<close> is that evaluator on the weights of its genome. The back reference to the
  simulation is only read for the generation number, which is passed instead.
\<close>

record Agent =
  position :: Vector2D
  velocity :: Vector2D
  acceleration :: Vector2D
  bodySize :: real
  energy :: real
  genome :: Genome
  age :: nat
  dead :: bool
  fitness :: real
  metabolismMultiplier :: real
  agentId :: nat
  speciesRef :: "nat option"
  agentParentIds :: "nat list"

type_synonym evaluator = "real list \<Rightarrow> real list \<Rightarrow> real \<times> real \<times> real"

text \<open>The number of weights and biases of the network: the loop of the constructor.\<close>

fun expectedWeightCount :: "nat list \<Rightarrow> nat" where
  "expectedWeightCount (a # b # rest) = a * b + b + expectedWeightCount (b # rest)"
| "expectedWeightCount _ = 0"

text \<open>
  The constructor. A missing position is drawn; a genome of the wrong length, or a missing
  one, is replaced by a random genome of the expected length. The last statement builds
  the network of the genome, and the constructor throws when that throws.
\<close>

definition newAgent ::
  "Config \<Rightarrow> rng \<Rightarrow> nat \<Rightarrow> Vector2D option \<Rightarrow> Genome option \<Rightarrow> nat
     \<Rightarrow> error + Agent \<times> nat" where
  "newAgent cfg rnd k positionOpt genomeOpt aid =
     (let (pos, k1) =
            (case positionOpt of
               Some p \<Rightarrow> (p, k)
             | None \<Rightarrow> (createVector (rnd k * worldWidth cfg) (rnd (k + 1) * worldHeight cfg), k + 2));
          expectedWeights =
            expectedWeightCount ([inputNeurons cfg] @ hiddenNeurons cfg @ [outputNeurons cfg]);
          (g, k2) =
            (case genomeOpt of
               Some g \<Rightarrow>
                 if length (weights g) \<noteq> expectedWeights then Genome_random rnd k1 expectedWeights
                 else (g, k1)
             | None \<Rightarrow> Genome_random rnd k1 expectedWeights)
      in case Genome_createNetwork g (inputNeurons cfg) (hiddenNeurons cfg) (outputNeurons cfg) of
           Inl e \<Rightarrow> Inl e
         | Inr brain \<Rightarrow>
             Inr (\<lparr>position = pos, velocity = createVector 0 0, acceleration = createVector 0 0,
                   bodySize = agentSize cfg, energy = agentMaxEnergy cfg / 2, genome = g, age = 0,
                   dead = False, fitness = 0, metabolismMultiplier = 1, agentId = aid,
                   speciesRef = None, agentParentIds = []\<rparr>, k2))"

subsection \<open>Sensing\<close>

text \<open>
  The two nearest-neighbour loops start from \<^verbatim>\<open>Infinity\<close> and \<^verbatim>\<open>null\<close>: the state
  \<open>None\<close>. A later candidate replaces the current one only when strictly closer.
\<close>

fun closestFoodLoop :: "Vector2D \<Rightarrow> Food list \<Rightarrow> (Food \<times> real) option \<Rightarrow> (Food \<times> real) option" where
  "closestFoodLoop pos [] best = best"
| "closestFoodLoop pos (food # rest) best =
     closestFoodLoop pos rest
       (if \<not> isConsumed food
        then (let distance = distanceBetween pos (foodPosition food)
              in case best of
                   None \<Rightarrow> Some (food, distance)
                 | Some (closestFood, closestDistance) \<Rightarrow>
                     if distance < closestDistance then Some (food, distance) else best)
        else best)"

fun closestObstacleLoop ::
  "Vector2D \<Rightarrow> Obstacle list \<Rightarrow> (Obstacle \<times> real) option \<Rightarrow> (Obstacle \<times> real) option" where
  "closestObstacleLoop pos [] best = best"
| "closestObstacleLoop pos (obstacle # rest) best =
     closestObstacleLoop pos rest
       (let distance = distanceBetween pos (obstaclePosition obstacle)
        in case best of
             None \<Rightarrow> Some (obstacle, distance)
           | Some (closestObstacle, closestDistance) \<Rightarrow>
               if distance < closestDistance then Some (obstacle, distance) else best)"

definition getSensoryInputs ::
  "Config \<Rightarrow> rng \<Rightarrow> nat \<Rightarrow> Agent \<Rightarrow> Food list \<Rightarrow> Obstacle list \<Rightarrow> real list" where
  "getSensoryInputs cfg rnd k a foods obstacles =
     [xc (position a) / worldWidth cfg,
      yc (position a) / worldHeight cfg,
      magnitudeVector (velocity a) / agentMaxSpeed cfg,
      energy a / agentMaxEnergy cfg]
     @ (case closestFoodLoop (position a) foods None of
          Some (closestFood, closestDistance) \<Rightarrow>
            (let directionVector =
                   normalizeVector (subtractVectors (foodPosition closestFood) (position a))
             in [xc directionVector, yc directionVector,
                 closestDistance / sqrt ((worldWidth cfg)\<^sup>2 + (worldHeight cfg)\<^sup>2),
                 (if foodType closestFood = BASIC then 1/2
                  else if foodType closestFood = SUPER then 1 else 0)])
        | None \<Rightarrow> [0, 0, 1, 1/2])
     @ (case closestObstacleLoop (position a) obstacles None of
          Some (closestObstacle, closestDistance) \<Rightarrow>
            if closestDistance < 150
            then (let directionVector =
                        normalizeVector (subtractVectors (obstaclePosition closestObstacle) (position a))
                  in [xc directionVector, yc directionVector, closestDistance / 150])
            else [0, 0, 1]
        | None \<Rightarrow> [0, 0, 1])
     @ [rnd k]"

subsection \<open>Decision and physics\<close>

definition applyOutputs :: "Config \<Rightarrow> real \<times> real \<times> real \<Rightarrow> Agent \<Rightarrow> Agent" where
  "applyOutputs cfg outputs a =
     (case outputs of (o0, o1, o2) \<Rightarrow>
        (let forwardForce = o0 * agentMaxForce cfg;
             forwardVector =
               normalizeVector
                 (if xc (velocity a) = 0 \<and> yc (velocity a) = 0 then createVector 1 0 else velocity a);
             turnForce = (o1 * 2 - 1) * agentMaxForce cfg;
             turnVector = createVector (- yc forwardVector) (xc forwardVector);
             speedMultiplier = o2 * 2;
             movementForce =
               addVectors
                 \<lparr>xc = xc forwardVector * forwardForce, yc = yc forwardVector * forwardForce\<rparr>
                 \<lparr>xc = xc turnVector * turnForce, yc = yc turnVector * turnForce\<rparr>
         in a\<lparr>acceleration :=
                \<lparr>xc = xc movementForce * speedMultiplier, yc = yc movementForce * speedMultiplier\<rparr>\<rparr>))"

text \<open>The four wrapping statements, in the order of the source, on one coordinate.\<close>

definition wrapCoordinate :: "real \<Rightarrow> real \<Rightarrow> real" where
  "wrapCoordinate bound c =
     (let c1 = (if c < 0 then bound else c)
      in if c1 > bound then 0 else c1)"

definition updatePhysics :: "Config \<Rightarrow> real \<Rightarrow> Agent \<Rightarrow> Agent" where
  "updatePhysics cfg movementMultiplier a =
     (let v1 = addVectors (velocity a) (acceleration a);
          v2 = limitVector v1 (agentMaxSpeed cfg * movementMultiplier);
          p1 = addVectors (position a) (multiplyVector v2 movementMultiplier)
      in a\<lparr>velocity := v2,
            position := \<lparr>xc = wrapCoordinate (worldWidth cfg) (xc p1),
                         yc = wrapCoordinate (worldHeight cfg) (yc p1)\<rparr>\<rparr>)"

text \<open>The position after the integration step of \<^verbatim>\<open>updatePhysics\<close>, before wrapping.\<close>

definition integratedPosition :: "Config \<Rightarrow> real \<Rightarrow> Agent \<Rightarrow> Vector2D" where
  "integratedPosition cfg movementMultiplier a =
     addVectors (position a)
       (multiplyVector
          (limitVector (addVectors (velocity a) (acceleration a)) (agentMaxSpeed cfg * movementMultiplier))
          movementMultiplier)"

subsection \<open>Collisions and feeding\<close>

definition collides :: "Agent \<Rightarrow> Obstacle \<Rightarrow> bool" where
  "collides a obstacle \<longleftrightarrow>
     distanceBetween (position a) (obstaclePosition obstacle) < bodySize a + obstacleSize obstacle"

fun checkObstacleCollisions :: "Agent \<Rightarrow> Obstacle list \<Rightarrow> Agent" where
  "checkObstacleCollisions a [] = a"
| "checkObstacleCollisions a (obstacle # rest) =
     (if collides a obstacle
      then (let distance = distanceBetween (position a) (obstaclePosition obstacle);
                awayVector = normalizeVector (subtractVectors (position a) (obstaclePosition obstacle));
                overlapDistance = bodySize a + obstacleSize obstacle - distance;
                p1 = addVectors (position a) (multiplyVector awayVector (overlapDistance * (11/10)));
                dotProduct = xc (velocity a) * xc awayVector + yc (velocity a) * yc awayVector;
                v1 = subtractVectors (velocity a) (multiplyVector awayVector (2 * dotProduct))
            in checkObstacleCollisions (a\<lparr>position := p1, velocity := v1, energy := energy a - 5\<rparr>) rest)
      else checkObstacleCollisions a rest)"

text \<open>
  The number of obstacles with which the loop of \<^verbatim>\<open>checkObstacleCollisions\<close> finds the
  agent in collision: each obstacle is tested where the collisions before it have left the
  agent.
\<close>

fun collisionCount :: "Agent \<Rightarrow> Obstacle list \<Rightarrow> nat" where
  "collisionCount a [] = 0"
| "collisionCount a (obstacle # rest) =
     (if collides a obstacle
      then 1 + collisionCount (checkObstacleCollisions a [obstacle]) rest
      else collisionCount a rest)"

text \<open>
  \<^verbatim>\<open>checkFoodConsumption\<close> first filters the food array, then eats from the filtered
  array; the food objects are shared with the array of the simulation, so the filtered
  array is the list of their positions in it.
\<close>

definition nearbyFood :: "Agent \<Rightarrow> Food \<Rightarrow> bool" where
  "nearbyFood a food \<longleftrightarrow>
     (if isConsumed food then False
      else (let dx = xc (foodPosition food) - xc (position a);
                dy = yc (foodPosition food) - yc (position a);
                squareDistance = dx * dx + dy * dy
            in squareDistance < (bodySize a + foodSize food + 10) * (bodySize a + foodSize food + 10)))"

definition eats :: "Agent \<Rightarrow> Food \<Rightarrow> bool" where
  "eats a food \<longleftrightarrow> distanceBetween (position a) (foodPosition food) < bodySize a + foodSize food"

fun consumeFoods :: "Config \<Rightarrow> nat list \<Rightarrow> Agent \<Rightarrow> Food list \<Rightarrow> Agent \<times> Food list" where
  "consumeFoods cfg [] a foods = (a, foods)"
| "consumeFoods cfg (i # rest) a foods =
     (let food = foods ! i in
      if eats a food
      then (let e1 = energy a + foodEnergy food;
                e2 = (if e1 < 1 \<and> foodType food = POISON then 1 else e1);
                e3 = (if e2 > agentMaxEnergy cfg then agentMaxEnergy cfg else e2)
            in consumeFoods cfg rest (a\<lparr>energy := e3\<rparr>) (foods[i := food\<lparr>isConsumed := True\<rparr>]))
      else consumeFoods cfg rest a foods)"

definition checkFoodConsumption :: "Config \<Rightarrow> Agent \<Rightarrow> Food list \<Rightarrow> Agent \<times> Food list" where
  "checkFoodConsumption cfg a foods =
     consumeFoods cfg (filter (\<lambda>i. nearbyFood a (foods ! i)) [0..<length foods]) a foods"

subsection \<open>The full update of one agent\<close>

text \<open>
  \<^verbatim>\<open>Agent.update\<close>: age, metabolism and the death check; then sensing, decision,
  physics, feeding, collisions and the fitness. The one draw is the noise input.
\<close>

definition Agent_update ::
  "Config \<Rightarrow> evaluator \<Rightarrow> rng \<Rightarrow> nat \<Rightarrow> Food list \<Rightarrow> Obstacle list \<Rightarrow> real \<Rightarrow> Agent
     \<Rightarrow> Agent \<times> Food list \<times> nat" where
  "Agent_update cfg predict rnd k foods obstacles movementMultiplier a =
     (let a1 = a\<lparr>age := age a + 1\<rparr>;
          a2 = a1\<lparr>energy := energy a1 - agentMetabolismRate cfg * metabolismMultiplier a1\<rparr>
      in if energy a2 \<le> 0 then (a2\<lparr>dead := True\<rparr>, foods, k)
         else
           (let inputs = getSensoryInputs cfg rnd k a2 foods obstacles;
                outputs = predict (weights (genome a2)) inputs;
                a3 = applyOutputs cfg outputs a2;
                a4 = updatePhysics cfg movementMultiplier a3;
                (a5, foods') = checkFoodConsumption cfg a4 foods;
                a6 = checkObstacleCollisions a5 obstacles
            in (a6\<lparr>fitness := real (age a6) + energy a6\<rparr>, foods', k + 1)))"

text \<open>
  Two stages of \<^verbatim>\<open>Agent.update\<close>, named for the statements about it: the agent
  after ageing and metabolism, and the agent after decision and physics, before feeding
  and collisions.
\<close>

definition metabolised :: "Config \<Rightarrow> Agent \<Rightarrow> Agent" where
  "metabolised cfg a =
     a\<lparr>age := age a + 1, energy := energy a - agentMetabolismRate cfg * metabolismMultiplier a\<rparr>"

definition movedAgent ::
  "Config \<Rightarrow> evaluator \<Rightarrow> rng \<Rightarrow> nat \<Rightarrow> Food list \<Rightarrow> Obstacle list \<Rightarrow> real \<Rightarrow> Agent \<Rightarrow> Agent" where
  "movedAgent cfg predict rnd k fs obs movementMultiplier a =
     updatePhysics cfg movementMultiplier
       (applyOutputs cfg
          (predict (weights (genome a)) (getSensoryInputs cfg rnd k (metabolised cfg a) fs obs))
          (metabolised cfg a))"

subsection \<open>Reproduction\<close>

definition canReproduce :: "Config \<Rightarrow> Agent \<Rightarrow> bool" where
  "canReproduce cfg a \<longleftrightarrow> energy a > agentReproductionEnergy cfg"

definition selectCrossoverType :: "nat \<Rightarrow> CrossoverType" where
  "selectCrossoverType gen =
     (if gen < 5 then UNIFORM
      else if gen < 15 then SINGLE_POINT
      else MULTI_POINT)"

text \<open>
  \<^verbatim>\<open>reproduce\<close> writes to the energy of the invoking agent and of the partner, which
  are objects of the roster: the roster is the store, the two agents are positions in it,
  and the partner may be the invoking agent itself. The first part of the method, up to
  the genome of the child before mutation:
\<close>

definition reproduceGenome ::
  "Config \<Rightarrow> nat \<Rightarrow> rng \<Rightarrow> nat \<Rightarrow> Agent list \<Rightarrow> nat \<Rightarrow> nat option
     \<Rightarrow> error + Genome \<times> Agent list \<times> nat" where
  "reproduceGenome cfg gen rnd k roster self partnerOpt =
     (let roster1 = roster[self := (roster ! self)\<lparr>energy := energy (roster ! self) / 2\<rparr>]
      in case partnerOpt of
           Some p \<Rightarrow>
             if canReproduce cfg (roster1 ! p)
             then (let roster2 = roster1[p := (roster1 ! p)\<lparr>energy := energy (roster1 ! p) / 2\<rparr>]
                   in case crossover rnd k (genome (roster2 ! self)) (genome (roster2 ! p))
                             (selectCrossoverType gen) of
                        Inl e \<Rightarrow> Inl e
                      | Inr (childGenome, k1) \<Rightarrow>
                          Inr (childGenome\<lparr>mutationRate :=
                                 (mutationRate (genome (roster2 ! self))
                                  + mutationRate (genome (roster2 ! p))) / 2\<rparr>,
                               roster2, k1))
             else Inr (Genome_copy (genome (roster1 ! self)), roster1, k)
         | None \<Rightarrow> Inr (Genome_copy (genome (roster1 ! self)), roster1, k))"

text \<open>
  The whole method: the operator-level \<^verbatim>\<open>mutate\<close> imported from mutation.ts with the
  configured rate and amount, the position of the child, the constructor, the parent ids.
\<close>

definition reproduce ::
  "Config \<Rightarrow> nat \<Rightarrow> rng \<Rightarrow> nat \<Rightarrow> Agent list \<Rightarrow> nat \<Rightarrow> nat option
     \<Rightarrow> error + Agent \<times> Agent list \<times> nat" where
  "reproduce cfg gen rnd k roster self partnerOpt =
     (case reproduceGenome cfg gen rnd k roster self partnerOpt of
        Inl e \<Rightarrow> Inl e
      | Inr (childGenome, roster2, k1) \<Rightarrow>
          (let (mutated, k2) = mutate rnd k1 childGenome (cfgMutationRate cfg) (cfgMutationAmount cfg);
               childPosition =
                 addVectors (position (roster2 ! self))
                   \<lparr>xc = rnd k2 * 20 - 10, yc = rnd (k2 + 1) * 20 - 10\<rparr>
           in case newAgent cfg rnd (k2 + 2) (Some childPosition) (Some mutated) 0 of
                Inl e \<Rightarrow> Inl e
              | Inr (childAgent, k3) \<Rightarrow>
                  Inr (childAgent\<lparr>agentParentIds :=
                         (case partnerOpt of
                            Some p \<Rightarrow> [agentId (roster2 ! self), agentId (roster2 ! p)]
                          | None \<Rightarrow> [agentId (roster2 ! self)])\<rparr>,
                       roster2, k3)))"

text \<open>An agent with half of its energy.\<close>

definition halveEnergy :: "Agent \<Rightarrow> Agent" where
  "halveEnergy a = a\<lparr>energy := energy a / 2\<rparr>"

section \<open>Zones (src/environment/zone.ts)\<close>

datatype ZoneType = NORMAL | HARSH | FERTILE | BARREN

record Zone =
  zonePosition :: Vector2D
  zoneRadius :: real
  zoneType :: ZoneType

definition Zone_contains :: "Zone \<Rightarrow> Vector2D \<Rightarrow> bool" where
  "Zone_contains zone point \<longleftrightarrow>
     (let dx = xc point - xc (zonePosition zone);
          dy = yc point - yc (zonePosition zone)
      in dx * dx + dy * dy \<le> zoneRadius zone * zoneRadius zone)"

definition getMetabolismMultiplier :: "Zone \<Rightarrow> real" where
  "getMetabolismMultiplier zone =
     (case zoneType zone of HARSH \<Rightarrow> 3/2 | FERTILE \<Rightarrow> 8/10 | _ \<Rightarrow> 1)"

section \<open>Simulation (src/core/sim.ts)\<close>

text \<open>
  \<^verbatim>\<open>applyEnvironmentEffects\<close>: the multiplier of the first zone that contains the agent,
  1 when there is none.
\<close>

fun applyEnvironmentEffects :: "Zone list \<Rightarrow> Agent \<Rightarrow> Agent" where
  "applyEnvironmentEffects [] a = a\<lparr>metabolismMultiplier := 1\<rparr>"
| "applyEnvironmentEffects (zone # rest) a =
     (if Zone_contains zone (position a)
      then a\<lparr>metabolismMultiplier := getMetabolismMultiplier zone\<rparr>
      else applyEnvironmentEffects rest a)"

subsection \<open>The update policy of a tick\<close>

definition agentBatchSize :: nat where
  "agentBatchSize = 10"

definition batchStart :: "nat \<Rightarrow> nat \<Rightarrow> nat" where
  "batchStart agentCount tick = (tick * agentBatchSize) mod agentCount"

definition batchEnd :: "nat \<Rightarrow> nat \<Rightarrow> nat" where
  "batchEnd agentCount tick = min (batchStart agentCount tick + agentBatchSize) agentCount"

text \<open>
  Whether the agent at position \<open>i\<close> of a roster of \<open>agentCount\<close> agents gets the full
  update at the tick whose (already incremented) counter is \<open>tick\<close>: the two branches of
  \<^verbatim>\<open>Simulation.update\<close>.
\<close>

definition fullUpdateAt :: "nat \<Rightarrow> nat \<Rightarrow> nat \<Rightarrow> bool" where
  "fullUpdateAt agentCount tick i \<longleftrightarrow>
     (if agentCount \<le> 20 then i < agentCount
      else i \<ge> batchStart agentCount tick \<and> i < batchEnd agentCount tick)"

text \<open>
  The loop over the roster: the agents are updated in order, each full update reading and
  writing the food array and drawing from the oracle. \<open>i\<close> is the position of the head
  of the remaining roster.
\<close>

fun processAgents ::
  "Config \<Rightarrow> evaluator \<Rightarrow> Zone list \<Rightarrow> Obstacle list \<Rightarrow> real \<Rightarrow> nat \<Rightarrow> nat \<Rightarrow> rng \<Rightarrow> nat
     \<Rightarrow> nat \<Rightarrow> Agent list \<Rightarrow> Food list \<Rightarrow> Agent list \<times> Food list \<times> nat" where
  "processAgents cfg predict zones obstacles movementMultiplier agentCount tick rnd k i [] foods =
     ([], foods, k)"
| "processAgents cfg predict zones obstacles movementMultiplier agentCount tick rnd k i (a # rest) foods =
     (if fullUpdateAt agentCount tick i
      then (let (a', foods1, k1) =
                  Agent_update cfg predict rnd k foods obstacles movementMultiplier
                    (applyEnvironmentEffects zones a);
                (rest', foods2, k2) =
                  processAgents cfg predict zones obstacles movementMultiplier agentCount tick rnd k1
                    (i + 1) rest foods1
            in (a' # rest', foods2, k2))
      else (let (rest', foods2, k2) =
                  processAgents cfg predict zones obstacles movementMultiplier agentCount tick rnd k
                    (i + 1) rest foods
            in (updatePhysics cfg movementMultiplier a # rest', foods2, k2)))"

text \<open>
  The number of full updates that position \<open>i\<close> gets in the \<open>m\<close> ticks whose counters
  are \<open>t, t + 1, ...\<close>, on a roster that keeps its size.
\<close>

definition fullUpdateCount :: "nat \<Rightarrow> nat \<Rightarrow> nat \<Rightarrow> nat \<Rightarrow> nat" where
  "fullUpdateCount agentCount t m i = length (filter (\<lambda>tick. fullUpdateAt agentCount tick i) [t..<t + m])"

text \<open>The run length after which the window starts repeat.\<close>

definition batchPeriod :: "nat \<Rightarrow> nat" where
  "batchPeriod agentCount = agentCount div gcd agentCount agentBatchSize"

subsection \<open>The state and the generation transition\<close>

record Simulation =
  simGeneration :: nat
  tickCount :: nat
  agents :: "Agent list"
  foods :: "Food list"
  obstacles :: "Obstacle list"
  zones :: "Zone list"
  speciesManager :: SpeciesManager
  lineageTracker :: LineageTracker
  deadAgents :: "Agent list"

fun spawnFood :: "Config \<Rightarrow> rng \<Rightarrow> nat \<Rightarrow> nat \<Rightarrow> Food list \<Rightarrow> Food list \<times> nat" where
  "spawnFood cfg rnd k 0 fs = (fs, k)"
| "spawnFood cfg rnd k (Suc n) fs =
     (let pos = createVector (rnd k * worldWidth cfg) (rnd (k + 1) * worldHeight cfg);
          roll = rnd (k + 2);
          ty = (if roll < 1/10 then SUPER else if roll < 2/10 then POISON else BASIC)
      in spawnFood cfg rnd (k + 3) n (fs @ [newFood pos ty]))"

text \<open>The reseeding loop after an extinction: \<open>n\<close> agents are still to be created.\<close>

fun seedAgents ::
  "Config \<Rightarrow> rng \<Rightarrow> nat \<Rightarrow> nat \<Rightarrow> Agent list \<Rightarrow> LineageTracker \<Rightarrow> SpeciesManager
     \<Rightarrow> error + Agent list \<times> LineageTracker \<times> SpeciesManager \<times> nat" where
  "seedAgents cfg rnd k 0 roster lt sm = Inr (roster, lt, sm, k)"
| "seedAgents cfg rnd k (Suc n) roster lt sm =
     (let pos = createVector (rnd k * worldWidth cfg) (rnd (k + 1) * worldHeight cfg)
      in case newAgent cfg rnd (k + 2) (Some pos) None 0 of
           Inl e \<Rightarrow> Inl e
         | Inr (a, k1) \<Rightarrow>
             (let (i, lt1) = registerBirth lt [] 0
              in case assignSpecies sm rnd k1 (genome a) i of
                   Inl e \<Rightarrow> Inl e
                 | Inr (si, sm1, k2) \<Rightarrow>
                     seedAgents cfg rnd k2 n (roster @ [a\<lparr>agentId := i, speciesRef := Some si\<rparr>])
                       lt1 sm1))"

text \<open>
  \<^verbatim>\<open>do { partnerIndex = ... } while (partnerIndex === parentIndex)\<close>: on an oracle that
  keeps drawing the index of the parent the loop does not end.
\<close>

partial_function (option) pickPartner :: "rng \<Rightarrow> nat \<Rightarrow> nat \<Rightarrow> nat \<Rightarrow> (nat \<times> nat) option" where
  "pickPartner rnd k n parentIndex =
     (if randomIndex rnd k n = parentIndex then pickPartner rnd (k + 1) n parentIndex
      else Some (randomIndex rnd k n, k + 1))"

definition choosePartner :: "rng \<Rightarrow> nat \<Rightarrow> nat \<Rightarrow> nat \<Rightarrow> (nat option \<times> nat) option" where
  "choosePartner rnd k n parentIndex =
     (if rnd k < 7/10 \<and> n > 1
      then (case pickPartner rnd (k + 1) n parentIndex of
              None \<Rightarrow> None
            | Some (partnerIndex, k1) \<Rightarrow> Some (Some partnerIndex, k1))
      else Some (None, k + 1))"

text \<open>
  The loop that fills the roster with offspring. \<^verbatim>\<open>newAgents\<close> starts as the survivors
  (the same objects, whose energy \<^verbatim>\<open>reproduce\<close> goes on writing) and the children are
  pushed behind them: the loop state is the survivors as they are now and the children so
  far, and the new roster is the one followed by the other.
\<close>

partial_function (option) fillOffspring ::
  "Config \<Rightarrow> nat \<Rightarrow> rng \<Rightarrow> nat \<Rightarrow> Agent list \<Rightarrow> Agent list \<Rightarrow> LineageTracker \<Rightarrow> SpeciesManager
     \<Rightarrow> (error + Agent list \<times> LineageTracker \<times> SpeciesManager \<times> nat) option" where
  "fillOffspring cfg gen rnd k survivors children lt sm =
     (if length survivors + length children < initialAgentCount cfg
      then (let parentIndex = randomIndex rnd k (length survivors)
            in case choosePartner rnd (k + 1) (length survivors) parentIndex of
                 None \<Rightarrow> None
               | Some (partner, k1) \<Rightarrow>
                   (case reproduce cfg gen rnd k1 survivors parentIndex partner of
                      Inl e \<Rightarrow> Some (Inl e)
                    | Inr (child, survivors1, k2) \<Rightarrow>
                        (case registerBirth lt
                                (case partner of
                                   Some p \<Rightarrow> [agentId (survivors1 ! parentIndex), agentId (survivors1 ! p)]
                                 | None \<Rightarrow> [agentId (survivors1 ! parentIndex)]) 0 of
                           (i, lt1) \<Rightarrow>
                             (case assignSpecies sm rnd k2 (genome child) i of
                                Inl e \<Rightarrow> Some (Inl e)
                              | Inr (si, sm1, k3) \<Rightarrow>
                                  fillOffspring cfg gen rnd k3 survivors1
                                    (children @ [child\<lparr>agentId := i, speciesRef := Some si\<rparr>]) lt1 sm1))))
      else Some (Inr (survivors @ children, lt, sm, k)))"

text \<open>
  \<^verbatim>\<open>[...this.agents].sort((a, b) => b.fitness - a.fitness)\<close> is a stable sort by
  descending fitness, and the survivors are its first \<^verbatim>\<open>Math.ceil(length / 4)\<close> agents.
  Disposing of the others releases their networks, which are not modelled.
\<close>

definition sortedAgents :: "Agent list \<Rightarrow> Agent list" where
  "sortedAgents roster = sort_key (\<lambda>a. - fitness a) roster"

definition survivorCount :: "nat \<Rightarrow> nat" where
  "survivorCount n = nat \<lceil>real n / 4\<rceil>"

definition selectSurvivors :: "Agent list \<Rightarrow> Agent list" where
  "selectSurvivors roster = take (survivorCount (length roster)) (sortedAgents roster)"

definition startNewGeneration ::
  "Config \<Rightarrow> rng \<Rightarrow> nat \<Rightarrow> Simulation \<Rightarrow> (error + Simulation \<times> nat) option" where
  "startNewGeneration cfg rnd k sim =
     (let gen = simGeneration sim + 1;
          sm = speciesAdvanceGeneration (speciesManager sim);
          lt = lineageAdvanceGeneration (lineageTracker sim)
      in case (if agents sim = []
               then Some (seedAgents cfg rnd k (initialAgentCount cfg) (agents sim) lt sm)
               else fillOffspring cfg gen rnd k (selectSurvivors (agents sim)) [] lt sm) of
           None \<Rightarrow> None
         | Some (Inl e) \<Rightarrow> Some (Inl e)
         | Some (Inr (newAgents, lt1, sm1, k1)) \<Rightarrow>
             (let (fs, k2) = spawnFood cfg rnd k1 (initialFoodCount cfg) []
              in Some (Inr (sim\<lparr>simGeneration := gen, tickCount := 0, agents := newAgents,
                                foods := fs, speciesManager := sm1, lineageTracker := lt1\<rparr>, k2))))"

text \<open>
  Notions for the statements about the transition. An agent that differs from another at
  most by an energy that was halved some number of times, and rosters that do so
  position by position.
\<close>

definition energyHalved :: "Agent \<Rightarrow> Agent \<Rightarrow> bool" where
  "energyHalved a a' \<longleftrightarrow> (\<exists>j::nat. a' = a\<lparr>energy := energy a / 2 ^ j\<rparr>)"

definition rosterHalved :: "Agent list \<Rightarrow> Agent list \<Rightarrow> bool" where
  "rosterHalved r r' \<longleftrightarrow> length r' = length r \<and> (\<forall>i<length r. energyHalved (r ! i) (r' ! i))"

text \<open>
  A call of \<^verbatim>\<open>reproduce\<close> in the transition is written as the position of the parent
  among the survivors and the position of the partner, if one was drawn. The call halves
  the energy of the parent, and that of the partner when the partner can reproduce.
  \<open>chargeCount cfg a i calls n\<close> counts the halvings of the agent \<open>a\<close> at position \<open>i\<close>:
  the \<open>n\<close> that it has behind it and one for each of the calls, in their order, in which
  it is the parent, or is the partner with its energy of that moment above the
  reproduction threshold. \<open>chargedSurvivors\<close> are the survivors with every energy halved
  that many times, and \<open>callParentIds\<close> are the parent ids that a call gives to its child.
\<close>

fun chargeCount :: "Config \<Rightarrow> Agent \<Rightarrow> nat \<Rightarrow> (nat \<times> nat option) list \<Rightarrow> nat \<Rightarrow> nat" where
  "chargeCount cfg a i [] n = n"
| "chargeCount cfg a i ((parentIndex, partnerOpt) # calls) n =
     chargeCount cfg a i calls
       (if i = parentIndex \<or> (partnerOpt = Some i \<and> energy a / 2 ^ n > agentReproductionEnergy cfg)
        then n + 1 else n)"

definition chargedSurvivors :: "Config \<Rightarrow> Agent list \<Rightarrow> (nat \<times> nat option) list \<Rightarrow> Agent list" where
  "chargedSurvivors cfg survivors calls =
     map (\<lambda>i. (survivors ! i)\<lparr>energy :=
                  energy (survivors ! i) / 2 ^ chargeCount cfg (survivors ! i) i calls 0\<rparr>)
       [0..<length survivors]"

definition callParentIds :: "Agent list \<Rightarrow> nat \<times> nat option \<Rightarrow> nat list" where
  "callParentIds roster call =
     (case snd call of
        Some p \<Rightarrow> [agentId (roster ! fst call), agentId (roster ! p)]
      | None \<Rightarrow> [agentId (roster ! fst call)])"

text \<open>The agents that are not survivors, and an oracle on which the partner loop ends.\<close>

definition nonSurvivors :: "Agent list \<Rightarrow> Agent list" where
  "nonSurvivors roster = drop (survivorCount (length roster)) (sortedAgents roster)"

text \<open>An oracle with the range of \<^verbatim>\<open>Math.random\<close>.\<close>

definition unitOracle :: "rng \<Rightarrow> bool" where
  "unitOracle rnd \<longleftrightarrow> (\<forall>j. 0 \<le> rnd j \<and> rnd j < 1)"

definition partnerOracle :: "rng \<Rightarrow> nat \<Rightarrow> bool" where
  "partnerOracle rnd n \<longleftrightarrow> (n > 1 \<longrightarrow> (\<forall>k p. \<exists>j. randomIndex rnd (k + j) n \<noteq> p))"

section \<open>The genetic operators on a store\<close>

text \<open>
  A genome is an object with a reference to its weight array, and the operators write
  into arrays in place. To say what a call leaves untouched, the operators are modelled
  a second time on an explicit store: arrays and genome objects live at addresses, a
  \<^verbatim>\<open>new\<close>, a spread, a \<^verbatim>\<open>map\<close> or a \<^verbatim>\<open>slice\<close> allocates at the next free address,
  and an element assignment updates the array at its address.
\<close>

type_synonym addr = nat

record GenomeObj =
  weightsAt :: addr
  rateOf :: real

record Heap =
  arrayAt :: "addr \<rightharpoonup> real list"
  genomeAt :: "addr \<rightharpoonup> GenomeObj"
  nextFree :: addr

definition readArray :: "Heap \<Rightarrow> addr \<Rightarrow> real list" where
  "readArray h a = (case arrayAt h a of Some ws \<Rightarrow> ws | None \<Rightarrow> [])"

definition weightsOf :: "Heap \<Rightarrow> addr \<Rightarrow> real list" where
  "weightsOf h g = (case genomeAt h g of Some obj \<Rightarrow> readArray h (weightsAt obj) | None \<Rightarrow> [])"

definition rateAt :: "Heap \<Rightarrow> addr \<Rightarrow> real" where
  "rateAt h g = (case genomeAt h g of Some obj \<Rightarrow> rateOf obj | None \<Rightarrow> 0)"

text \<open>The genome value that the object at an address stands for.\<close>

definition readGenome :: "Heap \<Rightarrow> addr \<Rightarrow> Genome" where
  "readGenome h g = \<lparr>weights = weightsOf h g, mutationRate = rateAt h g\<rparr>"

definition allocArray :: "Heap \<Rightarrow> real list \<Rightarrow> addr \<times> Heap" where
  "allocArray h ws = (nextFree h, h\<lparr>arrayAt := (arrayAt h)(nextFree h \<mapsto> ws), nextFree := nextFree h + 1\<rparr>)"

definition allocGenome :: "Heap \<Rightarrow> addr \<Rightarrow> real \<Rightarrow> addr \<times> Heap" where
  "allocGenome h a r =
     (nextFree h,
      h\<lparr>genomeAt := (genomeAt h)(nextFree h \<mapsto> \<lparr>weightsAt = a, rateOf = r\<rparr>), nextFree := nextFree h + 1\<rparr>)"

text \<open>\<^verbatim>\<open>array[i] = v\<close> on the array at address \<open>a\<close>, for an index within the array.\<close>

definition writeArray :: "Heap \<Rightarrow> addr \<Rightarrow> nat \<Rightarrow> real \<Rightarrow> Heap" where
  "writeArray h a i v = h\<lparr>arrayAt := (arrayAt h)(a \<mapsto> (readArray h a)[i := v])\<rparr>"

text \<open>\<^verbatim>\<open>genome.weights = array\<close> and \<^verbatim>\<open>genome.mutationRate = r\<close> on the object at \<open>g\<close>.\<close>

definition setWeights :: "Heap \<Rightarrow> addr \<Rightarrow> addr \<Rightarrow> Heap" where
  "setWeights h g a = h\<lparr>genomeAt := (genomeAt h)(g \<mapsto> \<lparr>weightsAt = a, rateOf = rateAt h g\<rparr>)\<rparr>"

definition setRate :: "Heap \<Rightarrow> addr \<Rightarrow> real \<Rightarrow> Heap" where
  "setRate h g r =
     h\<lparr>genomeAt := (genomeAt h)(g \<mapsto> \<lparr>weightsAt = (case genomeAt h g of Some obj \<Rightarrow> weightsAt obj | None \<Rightarrow> 0),
                                        rateOf = r\<rparr>)\<rparr>"

text \<open>\<^verbatim>\<open>new Genome()\<close> and \<^verbatim>\<open>copy()\<close>, which is \<^verbatim>\<open>new Genome([...this.weights], this.mutationRate)\<close>.\<close>

definition heapNewGenome :: "Heap \<Rightarrow> addr \<times> Heap" where
  "heapNewGenome h = (let (a, h1) = allocArray h [] in allocGenome h1 a (5/100))"

definition heapCopy :: "Heap \<Rightarrow> addr \<Rightarrow> addr \<times> Heap" where
  "heapCopy h g = (let (a, h1) = allocArray h (weightsOf h g) in allocGenome h1 a (rateAt h g))"

text \<open>
  The operator-level \<^verbatim>\<open>mutate\<close>: the loop runs over the indices of the copy and adds to
  the elements of the copy's array in place.
\<close>

fun heapMutateLoop :: "rng \<Rightarrow> nat \<Rightarrow> real \<Rightarrow> real \<Rightarrow> addr \<Rightarrow> nat list \<Rightarrow> Heap \<Rightarrow> Heap \<times> nat" where
  "heapMutateLoop rnd k rate amount a [] h = (h, k)"
| "heapMutateLoop rnd k rate amount a (i # rest) h =
     (if rnd k < rate
      then heapMutateLoop rnd (k + 2) rate amount a rest
             (writeArray h a i (readArray h a ! i + (rnd (k + 1) * 2 - 1) * amount))
      else heapMutateLoop rnd (k + 1) rate amount a rest h)"

definition heapMutate :: "rng \<Rightarrow> nat \<Rightarrow> Heap \<Rightarrow> addr \<Rightarrow> real \<Rightarrow> real \<Rightarrow> addr \<times> Heap \<times> nat" where
  "heapMutate rnd k h g rate amount =
     (let (newG, h1) = heapCopy h g;
          a = (case genomeAt h1 newG of Some obj \<Rightarrow> weightsAt obj | None \<Rightarrow> 0);
          (h2, k') = heapMutateLoop rnd k rate amount a [0..<length (readArray h1 a)] h1
      in (newG, h2, k'))"

text \<open>The self-adaptive \<^verbatim>\<open>mutate\<close>: the rate of the copy is written first, then its array.\<close>

fun heapAdaptLoop :: "rng \<Rightarrow> nat \<Rightarrow> real \<Rightarrow> addr \<Rightarrow> nat list \<Rightarrow> Heap \<Rightarrow> (Heap \<times> nat) option" where
  "heapAdaptLoop rnd k rate a [] h = Some (h, k)"
| "heapAdaptLoop rnd k rate a (i # rest) h =
     (if rnd k < rate
      then (case randomNormal rnd (k + 1) of
              None \<Rightarrow> None
            | Some (z, k1) \<Rightarrow>
                heapAdaptLoop rnd k1 rate a rest (writeArray h a i (readArray h a ! i + z * (2/10))))
      else heapAdaptLoop rnd (k + 1) rate a rest h)"

definition heapMutateSelfAdaptive :: "rng \<Rightarrow> nat \<Rightarrow> Heap \<Rightarrow> addr \<Rightarrow> (addr \<times> Heap \<times> nat) option" where
  "heapMutateSelfAdaptive rnd k h g =
     (let (newG, h1) = heapCopy h g;
          (rate, k1) = adaptRate rnd k (rateAt h1 g);
          h2 = (if rnd k < 1/10 then setRate h1 newG rate else h1);
          a = (case genomeAt h2 newG of Some obj \<Rightarrow> weightsAt obj | None \<Rightarrow> 0)
      in case heapAdaptLoop rnd k1 (rateAt h2 newG) a [0..<length (readArray h2 a)] h2 of
           None \<Rightarrow> None
         | Some (h3, k2) \<Rightarrow> Some (newG, h3, k2))"

text \<open>
  \<^verbatim>\<open>crossover\<close>. UNIFORM and SINGLE_POINT build a new array and assign it to the child;
  MULTI_POINT assigns a copy of the first parent's array to the child and then, at each
  point, overwrites it in place from the point to the end with the genes of the parent
  whose turn it is.
\<close>

fun heapOverwrite :: "addr \<Rightarrow> addr \<Rightarrow> nat list \<Rightarrow> Heap \<Rightarrow> Heap" where
  "heapOverwrite a src [] h = h"
| "heapOverwrite a src (i # rest) h = heapOverwrite a src rest (writeArray h a i (readArray h src ! i))"

fun heapApplyPoints :: "nat list \<Rightarrow> nat \<Rightarrow> addr \<Rightarrow> addr \<Rightarrow> addr \<Rightarrow> nat \<Rightarrow> Heap \<Rightarrow> Heap" where
  "heapApplyPoints [] currentParent a w1 w2 len h = h"
| "heapApplyPoints (point # points) currentParent a w1 w2 len h =
     (if currentParent = 2
      then heapApplyPoints points 1 a w1 w2 len (heapOverwrite a w2 [point..<len] h)
      else heapApplyPoints points 2 a w1 w2 len (heapOverwrite a w1 [point..<len] h))"

definition heapCrossover ::
  "rng \<Rightarrow> nat \<Rightarrow> Heap \<Rightarrow> addr \<Rightarrow> addr \<Rightarrow> CrossoverType \<Rightarrow> error + addr \<times> Heap \<times> nat" where
  "heapCrossover rnd k h parent1 parent2 crossoverType =
     (let (child, h1) = heapNewGenome h in
      if length (weightsOf h1 parent1) \<noteq> length (weightsOf h1 parent2) then Inl GenomeLengthMismatch
      else
        (let len = length (weightsOf h1 parent1) in
         case crossoverType of
           UNIFORM \<Rightarrow>
             (let (a, h2) =
                    allocArray h1
                      (map (\<lambda>i. if rnd (k + i) < 1/2 then weightsOf h1 parent1 ! i
                                 else weightsOf h1 parent2 ! i) [0..<len])
              in Inr (child, setWeights h2 child a, k + len))
         | SINGLE_POINT \<Rightarrow>
             (let crossPoint = randomIndex rnd k len;
                  (a, h2) =
                    allocArray h1
                      (take crossPoint (weightsOf h1 parent1) @ drop crossPoint (weightsOf h1 parent2))
              in Inr (child, setWeights h2 child a, k + 1))
         | MULTI_POINT \<Rightarrow>
             (let numPoints = randomIndex rnd k 3 + 2;
                  points = sort (map (\<lambda>j. randomIndex rnd (k + 1 + j) len) [0..<numPoints]);
                  (a, h2) = allocArray h1 (weightsOf h1 parent1);
                  h3 = setWeights h2 child a;
                  w1 = (case genomeAt h3 parent1 of Some obj \<Rightarrow> weightsAt obj | None \<Rightarrow> 0);
                  w2 = (case genomeAt h3 parent2 of Some obj \<Rightarrow> weightsAt obj | None \<Rightarrow> 0)
              in Inr (child, heapApplyPoints points 2 a w1 w2 len h3, k + 1 + numPoints))))"

text \<open>
  A store is well formed when nothing lives at or above the next free address and the
  array of every genome object exists. A store \<open>h'\<close> extends \<open>h\<close> when every array and
  every genome object of \<open>h\<close> is in \<open>h'\<close> as it is in \<open>h\<close>.
\<close>

definition wellFormed :: "Heap \<Rightarrow> bool" where
  "wellFormed h \<longleftrightarrow>
     (\<forall>a ws. arrayAt h a = Some ws \<longrightarrow> a < nextFree h) \<and>
     (\<forall>g obj. genomeAt h g = Some obj \<longrightarrow> g < nextFree h \<and> arrayAt h (weightsAt obj) \<noteq> None)"

definition extends :: "Heap \<Rightarrow> Heap \<Rightarrow> bool" where
  "extends h h' \<longleftrightarrow>
     (\<forall>a ws. arrayAt h a = Some ws \<longrightarrow> arrayAt h' a = Some ws) \<and>
     (\<forall>g obj. genomeAt h g = Some obj \<longrightarrow> genomeAt h' g = Some obj)"

text \<open>Writes at addresses that were free in the first store keep the first store's objects.\<close>

definition above :: "Heap \<Rightarrow> Heap \<Rightarrow> bool" where
  "above h0 h \<longleftrightarrow> extends h0 h \<and> wellFormed h0"

section \<open>Example states\<close>

text \<open>Concrete states on which the theorems below are instantiated.\<close>

definition ancestryOf :: "nat \<Rightarrow> nat list \<Rightarrow> AgentAncestry" where
  "ancestryOf i ps =
     \<lparr>recId = i, parentIds = ps, generation = 1, speciesId = 0, birthTick = 0,
      deathTick = None, maxFitness = 0\<rparr>"

definition exampleLedger :: LineageTracker where
  "exampleLedger =
     addRecordDirect (addRecordDirect (addRecordDirect newLineageTracker
       (ancestryOf 1 [])) (ancestryOf 2 [1])) (ancestryOf 3 [1, 2])"

definition speciesOf :: "nat \<Rightarrow> real list \<Rightarrow> nat list \<Rightarrow> Species" where
  "speciesOf sid ws ms =
     \<lparr>spId = sid, members = ms, representative = newGenome ws, hue = 0,
      creationGeneration = 1, lastImprovedGeneration = 1, bestFitness = 0\<rparr>"

definition exampleManager :: SpeciesManager where
  "exampleManager =
     \<lparr>species = [speciesOf 1 [3, 4] [1], speciesOf 2 [1, 0] [2]], nextSpeciesId = 3,
      speciesGeneration = 1\<rparr>"

definition exampleOracle :: rng where
  "exampleOracle j = (if j = 0 then 0 else 9/10)"

definition restingAgent :: "real \<Rightarrow> real \<Rightarrow> real \<Rightarrow> Agent" where
  "restingAgent px py e =
     \<lparr>position = \<lparr>xc = px, yc = py\<rparr>, velocity = \<lparr>xc = 0, yc = 0\<rparr>,
      acceleration = \<lparr>xc = 0, yc = 0\<rparr>, bodySize = 10, energy = e,
      genome = newGenome [], age = 0, dead = False, fitness = 0, metabolismMultiplier = 1,
      agentId = 1, speciesRef = None, agentParentIds = []\<rparr>"

definition agentWith :: "real \<Rightarrow> real list \<Rightarrow> Agent" where
  "agentWith e ws = (restingAgent 100 100 e)\<lparr>genome := newGenome ws\<rparr>"

definition exampleRoster :: "Agent list" where
  "exampleRoster = [agentWith 80 [1, 1, 1, 1, 1], agentWith 90 [0, 0, 0, 0, 0], agentWith 60 [2, 2, 2, 2, 2]]"

definition exampleObstacle :: Obstacle where
  "exampleObstacle = \<lparr>obstaclePosition = \<lparr>xc = 100, yc = 100\<rparr>, obstacleSize = 30\<rparr>"

definition idleEvaluator :: evaluator where
  "idleEvaluator ws inputs = (0, 1/2, 0)"

definition farFood :: Food where
  "farFood = newFood \<lparr>xc = 400, yc = 400\<rparr> BASIC"

definition farObstacle :: Obstacle where
  "farObstacle = \<lparr>obstaclePosition = \<lparr>xc = 500, yc = 500\<rparr>, obstacleSize = 30\<rparr>"

definition smallConfig :: Config where
  "smallConfig = config\<lparr>initialAgentCount := 3, initialFoodCount := 1,
                        inputNeurons := 1, hiddenNeurons := [1], outputNeurons := 1\<rparr>"

definition rankedAgent :: "nat \<Rightarrow> real \<Rightarrow> real \<Rightarrow> Agent" where
  "rankedAgent i e f = (restingAgent 100 100 e)\<lparr>agentId := i, fitness := f,
                                   genome := newGenome [1, 1, 1, 1]\<rparr>"

definition exampleSimulation :: Simulation where
  "exampleSimulation =
     \<lparr>simGeneration = 1, tickCount = 1000,
      agents = [rankedAgent 1 50 3, rankedAgent 2 80 9, rankedAgent 3 60 1],
      foods = [], obstacles = [], zones = [],
      speciesManager = newSpeciesManager,
      lineageTracker = newLineageTracker\<lparr>nextAgentId := 4\<rparr>,
      deadAgents = []\<rparr>"

definition resultAgents :: "(error + Simulation \<times> nat) option \<Rightarrow> Agent list" where
  "resultAgents r = (case r of Some (Inr (sim', k')) \<Rightarrow> agents sim' | _ \<Rightarrow> [])"

definition exampleChild :: "nat \<Rightarrow> Agent" where
  "exampleChild i =
     \<lparr>position = \<lparr>xc = 108, yc = 108\<rparr>, velocity = \<lparr>xc = 0, yc = 0\<rparr>,
      acceleration = \<lparr>xc = 0, yc = 0\<rparr>, bodySize = 10, energy = 50,
      genome = newGenome [1, 1, 1, 1], age = 0, dead = False, fitness = 0,
      metabolismMultiplier = 1, agentId = i, speciesRef = Some 0, agentParentIds = [2]\<rparr>"

definition exampleHeap :: Heap where
  "exampleHeap =
     \<lparr>arrayAt = [0 \<mapsto> [1, 1, 1, 1, 1], 1 \<mapsto> [0, 0, 0, 0, 0]],
      genomeAt = [2 \<mapsto> \<lparr>weightsAt = 0, rateOf = 1/20\<rparr>, 3 \<mapsto> \<lparr>weightsAt = 1, rateOf = 1/20\<rparr>],
      nextFree = 4\<rparr>"

definition savedSpecies :: "nat \<Rightarrow> real list \<Rightarrow> SavedSpecies" where
  "savedSpecies sid ws =
     \<lparr>savedId = sid, savedRepresentative = newGenome ws, savedCreationGeneration = 1,
      savedLastImprovedGeneration = 1, savedBestFitness = 0, savedHue = 0\<rparr>"

section \<open>Lineage: the ancestor walk\<close>

lemma mset_queue_drop: "mset rest < mset (p # rest)"
  by simp

lemma mset_queue_expand:
  assumes "\<forall>q \<in> set ps. q < (p::nat)"
  shows "mset (rest @ ps) < mset (p # rest)"
proof -
  have "multp (<) (mset rest + mset ps) (mset rest + {#p#})"
    by (rule one_step_implies_multp) (use assms in auto)
  then show ?thesis
    by (simp add: less_multiset_def)
qed

lemma ancestorsLoop_total:
  assumes dag: "lineageDag recs"
  shows "(\<forall>q \<in> set queue. q < n) \<Longrightarrow>
         \<exists>res. ancestorsLoop recs queue acc = Some res \<and>
               (\<forall>r \<in> set res. r \<in> set acc \<or> recId r < n)"
proof (induction "mset queue" arbitrary: queue acc rule: wf_induct_rule [OF wf_less_multiset])
  case less: 1
  show ?case
  proof (cases queue)
    case Nil
    then show ?thesis
      by (simp add: ancestorsLoop.simps)
  next
    case (Cons p rest)
    show ?thesis
    proof (cases "recs p")
      case None
      have "mset rest < mset queue"
        using Cons mset_queue_drop by simp
      moreover have "\<forall>q \<in> set rest. q < n"
        using less.prems Cons by simp
      ultimately obtain res where
        "ancestorsLoop recs rest acc = Some res" "\<forall>r \<in> set res. r \<in> set acc \<or> recId r < n"
        using less.hyps [of rest acc] by blast
      then show ?thesis
        using Cons None by (subst ancestorsLoop.simps) simp
    next
      case (Some pr)
      have pr: "recId pr = p" "\<forall>q \<in> set (parentIds pr). q < p"
        using dag Some by (auto simp: lineageDag_def)
      have pn: "p < n"
        using less.prems Cons by simp
      have "mset (rest @ parentIds pr) < mset queue"
        using Cons mset_queue_expand [OF pr(2)] by simp
      moreover have "\<forall>q \<in> set (rest @ parentIds pr). q < n"
        using less.prems Cons pr(2) pn by auto
      ultimately obtain res where res:
        "ancestorsLoop recs (rest @ parentIds pr) (acc @ [pr]) = Some res"
        "\<forall>r \<in> set res. r \<in> set (acc @ [pr]) \<or> recId r < n"
        using less.hyps [of "rest @ parentIds pr" "acc @ [pr]"] by blast
      have "\<forall>r \<in> set res. r \<in> set acc \<or> recId r < n"
        using res(2) pr(1) pn by auto
      then show ?thesis
        using Cons Some res(1) by (subst ancestorsLoop.simps) simp
    qed
  qed
qed

lemma exampleLedger_records:
  "ancestryRecords exampleLedger =
     [1 \<mapsto> ancestryOf 1 [], 2 \<mapsto> ancestryOf 2 [1], 3 \<mapsto> ancestryOf 3 [1, 2]]"
  by (simp add: exampleLedger_def addRecordDirect_def newLineageTracker_def ancestryOf_def)

text \<open>
  C8. On a ledger where every record is stored under its own id and has parent ids
  strictly below that id, \<^verbatim>\<open>getAncestors\<close> returns for every queried id (the
  loop ends), and every record it returns has an id strictly below the queried id.
\<close>

theorem getAncestors_terminates_below:
  assumes "lineageDag (ancestryRecords t)"
  shows "\<exists>res. getAncestors t aid = Some res \<and> (\<forall>r \<in> set res. recId r < aid)"
proof (cases "ancestryRecords t aid")
  case None
  then show ?thesis
    by (simp add: getAncestors_def)
next
  case (Some rcd)
  have "\<forall>q \<in> set (parentIds rcd). q < aid"
    using assms Some by (auto simp: lineageDag_def)
  from ancestorsLoop_total [OF assms this, of "[]"] Some show ?thesis
    by (simp add: getAncestors_def)
qed

theorem getAncestors_terminates_below_witness:
  "lineageDag (ancestryRecords exampleLedger) \<and>
   map_option (map recId) (getAncestors exampleLedger 3) = Some [1, 2, 1]"
proof -
  have dag: "lineageDag (ancestryRecords exampleLedger)"
    by (simp add: exampleLedger_records lineageDag_def ancestryOf_def)
  from getAncestors_terminates_below [OF dag, of 3] obtain res where
    res: "getAncestors exampleLedger 3 = Some res" "\<forall>r \<in> set res. recId r < 3"
    by blast
  have "map recId res = [1, 2, 1]"
    using res(1) by (auto simp add: getAncestors_def exampleLedger_records ancestorsLoop.simps ancestryOf_def)
  with dag res(1) show ?thesis
    by simp
qed

text \<open>
  C9. \<^verbatim>\<open>registerDeath\<close> and \<^verbatim>\<open>updateFitness\<close> on an id without a record return
  the tracker as it was (no branch of either raises), and \<^verbatim>\<open>getAncestors\<close> of such an
  id returns the empty list.
\<close>

theorem lineage_unknown_id_tolerated:
  assumes "ancestryRecords t aid = None"
  shows "registerDeath t aid f = t \<and> updateFitness t aid f = t \<and>
         getAncestors t aid = Some []"
  using assms by (simp add: registerDeath_def updateFitness_def getAncestors_def)


theorem lineage_unknown_id_tolerated_witness:
  "ancestryRecords exampleLedger 7 = None \<and> registerDeath exampleLedger 7 5 = exampleLedger \<and>
   updateFitness exampleLedger 7 5 = exampleLedger \<and> getAncestors exampleLedger 7 = Some []"
proof -
  have none: "ancestryRecords exampleLedger 7 = None"
    by (simp add: exampleLedger_records)
  from lineage_unknown_id_tolerated [OF none, of 5] none show ?thesis
    by simp
qed

section \<open>Species assignment\<close>

lemma Genome_copy_id: "Genome_copy g = g"
  by (simp add: Genome_copy_def)

lemma findSpecies_match:
  assumes "i < length ss"
    and "\<exists>d. geneticDistance gnm (representative (ss ! i)) = Inr d \<and> d < distanceThreshold"
    and "\<forall>j<i. \<exists>d. geneticDistance gnm (representative (ss ! j)) = Inr d \<and> distanceThreshold \<le> d"
  shows "findSpecies gnm ss n = Inr (Some (n + i))"
  using assms
proof (induction ss arbitrary: i n)
  case Nil
  then show ?case by simp
next
  case (Cons s ss)
  show ?case
  proof (cases i)
    case 0
    with Cons.prems(2) show ?thesis by auto
  next
    case (Suc i')
    from Cons.prems(3) Suc obtain d where
      d: "geneticDistance gnm (representative s) = Inr d" "distanceThreshold \<le> d"
      by fastforce
    have "findSpecies gnm ss (n + 1) = Inr (Some (n + 1 + i'))"
    proof (rule Cons.IH)
      show "i' < length ss" using Cons.prems(1) Suc by simp
      show "\<exists>d. geneticDistance gnm (representative (ss ! i')) = Inr d \<and> d < distanceThreshold"
        using Cons.prems(2) Suc by simp
      show "\<forall>j<i'. \<exists>d. geneticDistance gnm (representative (ss ! j)) = Inr d \<and> distanceThreshold \<le> d"
      proof (intro allI impI)
        fix j assume "j < i'"
        then have "Suc j < i" using Suc by simp
        with Cons.prems(3) show "\<exists>d. geneticDistance gnm (representative (ss ! j)) = Inr d \<and> distanceThreshold \<le> d"
          by fastforce
      qed
    qed
    with d Suc show ?thesis by simp
  qed
qed

lemma findSpecies_none:
  assumes "\<forall>s \<in> set ss. \<exists>d. geneticDistance gnm (representative s) = Inr d \<and> distanceThreshold \<le> d"
  shows "findSpecies gnm ss n = Inr None"
  using assms by (induction ss arbitrary: n) auto

lemma findSpecies_bound:
  "findSpecies gnm ss n = Inr (Some i) \<Longrightarrow> n \<le> i \<and> i < n + length ss"
proof (induction ss arbitrary: n)
  case Nil
  then show ?case by simp
next
  case (Cons s ss)
  then show ?case
    by (fastforce split: sum.splits if_splits)
qed

lemma assignSpecies_keeps:
  assumes "assignSpecies m rnd k gnm aid = Inr (i', m', k')"
  shows "take (length (species m)) (map representative (species m')) = map representative (species m) \<and>
         take (length (species m)) (map spId (species m')) = map spId (species m) \<and>
         nextSpeciesId m \<le> nextSpeciesId m'"
proof (cases "findSpecies gnm (species m) 0")
  case (Inl e)
  with assms show ?thesis by (simp add: assignSpecies_def)
next
  case (Inr r)
  show ?thesis
  proof (cases r)
    case None
    with Inr assms show ?thesis
      by (auto simp: assignSpecies_def newSpecies_def)
  next
    case (Some i)
    have i: "i < length (species m)"
      using findSpecies_bound [of gnm "species m" 0 i] Inr Some by simp
    have "map representative ((species m)[i := addMember (species m ! i) aid]) = map representative (species m)"
      using i by (simp add: map_update addMember_def list_update_same_conv)
    moreover have "map spId ((species m)[i := addMember (species m ! i) aid]) = map spId (species m)"
      using i by (simp add: map_update addMember_def list_update_same_conv)
    ultimately show ?thesis
      using Inr Some assms by (auto simp: assignSpecies_def)
  qed
qed

text \<open>
  What holds of every call: \<^verbatim>\<open>assignSpecies\<close> scans the species in creation order. If the species at
  position \<open>i\<close> is the first whose representative is at Euclidean distance strictly
  below 4 from the genome, the agent is added to that species and nothing else changes.
  If every representative is at distance 4 or more, a species is appended whose id is the
  value of the id counter (which then grows by one, and which is not the id of an existing
  species when all their ids are below the counter), whose representative is the genome
  and whose only member is the agent. Whatever the call returns, the representatives and
  ids of the species that existed before are as they were.
\<close>

theorem assignSpecies_first_match_or_new:
  "(i < length (species m) \<and>
    (\<exists>d. geneticDistance gnm (representative (species m ! i)) = Inr d \<and> d < 4) \<and>
    (\<forall>j<i. \<exists>d. geneticDistance gnm (representative (species m ! j)) = Inr d \<and> 4 \<le> d)
    \<longrightarrow> assignSpecies m rnd k gnm aid =
          Inr (i, m\<lparr>species := (species m)[i := addMember (species m ! i) aid]\<rparr>, k))
   \<and>
   ((\<forall>s \<in> set (species m). \<exists>d. geneticDistance gnm (representative s) = Inr d \<and> 4 \<le> d)
    \<longrightarrow> assignSpecies m rnd k gnm aid =
          Inr (length (species m),
               m\<lparr>species := species m @
                    [\<lparr>spId = nextSpeciesId m, members = [aid], representative = gnm,
                      hue = randomIndex rnd k 360, creationGeneration = speciesGeneration m,
                      lastImprovedGeneration = speciesGeneration m, bestFitness = 0\<rparr>],
                 nextSpeciesId := nextSpeciesId m + 1\<rparr>,
               k + 1)
        \<and> ((\<forall>s \<in> set (species m). spId s < nextSpeciesId m)
             \<longrightarrow> nextSpeciesId m \<notin> spId ` set (species m)))
   \<and>
   (\<forall>i' m' k'. assignSpecies m rnd k gnm aid = Inr (i', m', k')
      \<longrightarrow> take (length (species m)) (map representative (species m')) = map representative (species m)
        \<and> take (length (species m)) (map spId (species m')) = map spId (species m)
        \<and> nextSpeciesId m \<le> nextSpeciesId m')"
proof (intro conjI impI allI)
  assume a: "i < length (species m) \<and>
    (\<exists>d. geneticDistance gnm (representative (species m ! i)) = Inr d \<and> d < 4) \<and>
    (\<forall>j<i. \<exists>d. geneticDistance gnm (representative (species m ! j)) = Inr d \<and> 4 \<le> d)"
  then have "findSpecies gnm (species m) 0 = Inr (Some (0 + i))"
    by (intro findSpecies_match) (simp_all add: distanceThreshold_def)
  then show "assignSpecies m rnd k gnm aid =
          Inr (i, m\<lparr>species := (species m)[i := addMember (species m ! i) aid]\<rparr>, k)"
    by (simp add: assignSpecies_def)
next
  assume "\<forall>s \<in> set (species m). \<exists>d. geneticDistance gnm (representative s) = Inr d \<and> 4 \<le> d"
  then have "findSpecies gnm (species m) 0 = Inr None"
    by (intro findSpecies_none) (simp add: distanceThreshold_def)
  then show "assignSpecies m rnd k gnm aid =
          Inr (length (species m),
               m\<lparr>species := species m @
                    [\<lparr>spId = nextSpeciesId m, members = [aid], representative = gnm,
                      hue = randomIndex rnd k 360, creationGeneration = speciesGeneration m,
                      lastImprovedGeneration = speciesGeneration m, bestFitness = 0\<rparr>],
                 nextSpeciesId := nextSpeciesId m + 1\<rparr>,
               k + 1)"
    by (simp add: assignSpecies_def newSpecies_def Genome_copy_id)
next
  assume "\<forall>s \<in> set (species m). spId s < nextSpeciesId m"
  then show "nextSpeciesId m \<notin> spId ` set (species m)"
    by auto
next
  fix i' m' k'
  assume "assignSpecies m rnd k gnm aid = Inr (i', m', k')"
  from assignSpecies_keeps [OF this]
  show "take (length (species m)) (map representative (species m')) = map representative (species m)"
    and "take (length (species m)) (map spId (species m')) = map spId (species m)"
    and "nextSpeciesId m \<le> nextSpeciesId m'"
    by simp_all
qed


lemma sqrt_less_4: "sqrt x < 4 \<longleftrightarrow> x < 16"
proof -
  have "sqrt 16 = 4"
    using real_sqrt_abs [of 4] by simp
  then show ?thesis
    using real_sqrt_less_iff [of x 16] by simp
qed

lemma sqrt_ge_4: "4 \<le> sqrt x \<longleftrightarrow> 16 \<le> x"
  using sqrt_less_4 [of x] by linarith

lemma geneticDistance_pair:
  "geneticDistance (newGenome [a, b]) (newGenome [c, d]) = Inr (sqrt ((a - c) * (a - c) + (b - d) * (b - d)))"
  by (simp add: geneticDistance_def newGenome_def upt_rec numeral_2_eq_2)

theorem assignSpecies_first_match_or_new_witness:
  "map_sum id (\<lambda>(i, m', k'). (i, map spId (species m'), map members (species m'), nextSpeciesId m', k'))
     (assignSpecies exampleManager (\<lambda>_. 1/2) 0 (newGenome [0, 0]) 9)
     = Inr (1, [1, 2], [[1], [2, 9]], 3, 0) \<and>
   map_sum id (\<lambda>(i, m', k'). (i, map spId (species m'), map members (species m'), nextSpeciesId m', k'))
     (assignSpecies exampleManager (\<lambda>_. 1/2) 0 (newGenome [10, 0]) 9)
     = Inr (2, [1, 2, 3], [[1], [2], [9]], 4, 1)"
proof -
  have sp: "species exampleManager = [speciesOf 1 [3, 4] [1], speciesOf 2 [1, 0] [2]]"
    by (simp add: exampleManager_def)
  have near: "1 < length (species exampleManager) \<and>
    (\<exists>d. geneticDistance (newGenome [0, 0]) (representative (species exampleManager ! 1)) = Inr d \<and> d < 4) \<and>
    (\<forall>j<1. \<exists>d. geneticDistance (newGenome [0, 0]) (representative (species exampleManager ! j)) = Inr d \<and> 4 \<le> d)"
    by (simp add: sp speciesOf_def geneticDistance_pair sqrt_less_4 sqrt_ge_4)
  have far: "\<forall>s \<in> set (species exampleManager).
      \<exists>d. geneticDistance (newGenome [10, 0]) (representative s) = Inr d \<and> 4 \<le> d"
    by (simp add: sp speciesOf_def geneticDistance_pair sqrt_ge_4)
  have a: "assignSpecies exampleManager (\<lambda>_. 1/2) 0 (newGenome [0, 0]) 9 =
      Inr (1, exampleManager\<lparr>species := (species exampleManager)[1 := addMember (species exampleManager ! 1) 9]\<rparr>, 0)"
    using assignSpecies_first_match_or_new [of 1 exampleManager "newGenome [0, 0]" "\<lambda>_. 1/2" 0 9] near
    by blast
  have b: "assignSpecies exampleManager (\<lambda>_. 1/2) 0 (newGenome [10, 0]) 9 =
      Inr (length (species exampleManager),
           exampleManager\<lparr>species := species exampleManager @
                [\<lparr>spId = nextSpeciesId exampleManager, members = [9], representative = newGenome [10, 0],
                  hue = randomIndex (\<lambda>_. 1/2) 0 360, creationGeneration = speciesGeneration exampleManager,
                  lastImprovedGeneration = speciesGeneration exampleManager, bestFitness = 0\<rparr>],
             nextSpeciesId := nextSpeciesId exampleManager + 1\<rparr>,
           0 + 1)"
    using assignSpecies_first_match_or_new [of 0 exampleManager "newGenome [10, 0]" "\<lambda>_. 1/2" 0 9] far
    by blast
  show ?thesis
    unfolding a b by (simp add: exampleManager_def speciesOf_def addMember_def)
qed

lemma restored_manager:
  "restoreSpecies newSpeciesManager (\<lambda>_. 1/2) 0 [savedSpecies 1 [0, 0]] =
     (\<lparr>species = [speciesOf 1 [0, 0] [0]], nextSpeciesId = 1, speciesGeneration = 1\<rparr>, 1)"
  by (simp add: restoreSpecies_def clearAllSpecies_def createSpecies_def newSpecies_def
      newSpeciesManager_def savedSpecies_def speciesOf_def Genome_copy_def newGenome_def Let_def)

text \<open>
  C6. The id of a new species is the value of the id counter, and \<^verbatim>\<open>createSpecies\<close>,
  with which a saved state is loaded, gives a species the saved id without moving the
  counter. A manager that has loaded one species with id 1 still has its counter at 1;
  \<^verbatim>\<open>assignSpecies\<close> of a genome at distance 10 from the representative then appends a
  second species with id 1, so the new id is not fresh: the ids are 1 and 1, and the
  counter goes to 2.
\<close>

theorem assignSpecies_after_restore_repeats_id:
  "map spId (species (fst (restoreSpecies newSpeciesManager (\<lambda>_. 1/2) 0 [savedSpecies 1 [0, 0]]))) = [1] \<and>
   nextSpeciesId (fst (restoreSpecies newSpeciesManager (\<lambda>_. 1/2) 0 [savedSpecies 1 [0, 0]])) = 1 \<and>
   map_sum id (\<lambda>(i, m', k'). (i, map spId (species m'), map members (species m'), nextSpeciesId m'))
     (assignSpecies (fst (restoreSpecies newSpeciesManager (\<lambda>_. 1/2) 0 [savedSpecies 1 [0, 0]]))
        (\<lambda>_. 1/2) 1 (newGenome [10, 0]) 9)
     = Inr (1, [1, 1], [[0], [9]], 2)"
proof -
  have d: "geneticDistance (newGenome [10, 0]) (newGenome [0, 0]) = Inr 10"
    using real_sqrt_abs [of 10] by (simp add: geneticDistance_pair)
  show ?thesis
    unfolding restored_manager
    by (simp add: assignSpecies_def speciesOf_def d distanceThreshold_def newSpecies_def Let_def)
qed

section \<open>Self-adaptive mutation keeps the rate in range\<close>

lemma drawNonzero_returns:
  "rnd (k + j) \<noteq> 0 \<Longrightarrow> \<exists>u k'. drawNonzero rnd k = Some (u, k')"
proof (induction j arbitrary: k)
  case 0
  then show ?case
    by (subst drawNonzero.simps) simp
next
  case (Suc j)
  show ?case
  proof (cases "rnd k = 0")
    case True
    from Suc.prems have "rnd ((k + 1) + j) \<noteq> 0" by simp
    from Suc.IH [of "k + 1", OF this] True show ?thesis
      by (subst drawNonzero.simps) simp
  next
    case False
    then show ?thesis
      by (subst drawNonzero.simps) simp
  qed
qed

lemma randomNormal_returns:
  assumes "liveOracle rnd"
  shows "\<exists>z k'. randomNormal rnd k = Some (z, k')"
proof -
  from assms obtain j where "rnd (k + j) \<noteq> 0"
    by (auto simp: liveOracle_def)
  from drawNonzero_returns [of rnd k j, OF this] obtain u k1 where u: "drawNonzero rnd k = Some (u, k1)"
    by blast
  from assms obtain j1 where "rnd (k1 + j1) \<noteq> 0"
    by (auto simp: liveOracle_def)
  from drawNonzero_returns [of rnd k1 j1, OF this] obtain v k2 where v: "drawNonzero rnd k1 = Some (v, k2)"
    by blast
  show ?thesis
    by (simp add: randomNormal_def u v)
qed

lemma adaptWeights_returns:
  assumes "liveOracle rnd"
  shows "\<exists>ws' k'. adaptWeights rnd k rate ws = Some (ws', k')"
proof (induction ws arbitrary: k)
  case Nil
  show ?case by simp
next
  case (Cons w ws)
  show ?case
  proof (cases "rnd k < rate")
    case True
    from randomNormal_returns [OF assms] obtain z k1 where z: "randomNormal rnd (k + 1) = Some (z, k1)"
      by blast
    from Cons.IH obtain ws' k2 where "adaptWeights rnd k1 rate ws = Some (ws', k2)"
      by blast
    with True z show ?thesis by simp
  next
    case False
    from Cons.IH obtain ws' k2 where "adaptWeights rnd (k + 1) rate ws = Some (ws', k2)"
      by blast
    with False show ?thesis by simp
  qed
qed

lemma mutateSelfAdaptive_returns:
  assumes "liveOracle rnd"
  shows "\<exists>g' k'. mutateSelfAdaptive rnd k g = Some (g', k')"
proof -
  obtain rate k1 where r: "adaptRate rnd k (mutationRate g) = (rate, k1)"
    by (cases "adaptRate rnd k (mutationRate g)")
  from adaptWeights_returns [OF assms] obtain ws k2 where
    "adaptWeights rnd k1 rate (weights (Genome_copy g)) = Some (ws, k2)"
    by blast
  with r show ?thesis
    by (simp add: mutateSelfAdaptive_def)
qed

lemma adaptRate_bound:
  assumes "1/1000 \<le> rate" "rate \<le> 3/10"
  shows "1/1000 \<le> fst (adaptRate rnd k rate) \<and> fst (adaptRate rnd k rate) \<le> 3/10"
  using assms by (auto simp: adaptRate_def Let_def max_def min_def)

lemma mutateSelfAdaptive_rate:
  assumes "mutateSelfAdaptive rnd k g = Some (g', k')"
  shows "mutationRate g' = fst (adaptRate rnd k (mutationRate g))"
  using assms
  by (auto simp: mutateSelfAdaptive_def Let_def split: prod.splits option.splits)

lemma mutateSelfAdaptive_bound:
  assumes "mutateSelfAdaptive rnd k g = Some (g', k')"
    and "1/1000 \<le> mutationRate g" "mutationRate g \<le> 3/10"
  shows "1/1000 \<le> mutationRate g' \<and> mutationRate g' \<le> 3/10"
  using adaptRate_bound [OF assms(2,3)] mutateSelfAdaptive_rate [OF assms(1)] by simp

lemma mutateRepeatedly_bound:
  assumes "mutateRepeatedly n rnd k g = Some (g', k')"
    and "1/1000 \<le> mutationRate g" "mutationRate g \<le> 3/10"
  shows "1/1000 \<le> mutationRate g' \<and> mutationRate g' \<le> 3/10"
  using assms
proof (induction n arbitrary: k g)
  case 0
  then show ?case by simp
next
  case (Suc n)
  from Suc.prems(1) obtain g1 k1 where
    s: "mutateSelfAdaptive rnd k g = Some (g1, k1)" and r: "mutateRepeatedly n rnd k1 g1 = Some (g', k')"
    by (auto split: option.splits)
  from mutateSelfAdaptive_bound [OF s Suc.prems(2,3)] Suc.IH [OF r] show ?case
    by simp
qed

lemma mutateRepeatedly_returns:
  assumes "liveOracle rnd"
  shows "\<exists>g' k'. mutateRepeatedly n rnd k g = Some (g', k')"
proof (induction n arbitrary: k g)
  case 0
  show ?case by simp
next
  case (Suc n)
  from mutateSelfAdaptive_returns [OF assms] obtain g1 k1 where
    "mutateSelfAdaptive rnd k g = Some (g1, k1)"
    by blast
  with Suc.IH [of k1 g1] show ?case by simp
qed

text \<open>
  C7. For a genome whose mutation rate lies in [0.001, 0.3], the genome that the
  self-adaptive \<^verbatim>\<open>mutate\<close> returns has its rate in [0.001, 0.3], and so has the
  genome after any number of such mutations in a row. The mutations do return on every
  oracle that is not zero from some call on.
\<close>

theorem mutationRate_stays_in_range:
  assumes "1/1000 \<le> mutationRate g" "mutationRate g \<le> 3/10"
  shows "(\<forall>g' k'. mutateSelfAdaptive rnd k g = Some (g', k')
            \<longrightarrow> 1/1000 \<le> mutationRate g' \<and> mutationRate g' \<le> 3/10) \<and>
         (\<forall>g' k'. mutateRepeatedly n rnd k g = Some (g', k')
            \<longrightarrow> 1/1000 \<le> mutationRate g' \<and> mutationRate g' \<le> 3/10) \<and>
         (liveOracle rnd \<longrightarrow> (\<exists>g' k'. mutateRepeatedly n rnd k g = Some (g', k')))"
  using mutateSelfAdaptive_bound [OF _ assms] mutateRepeatedly_bound [OF _ assms]
    mutateRepeatedly_returns [of rnd n k g]
  by blast

theorem mutationRate_stays_in_range_witness:
  "1/1000 \<le> mutationRate \<lparr>weights = [1], mutationRate = 1/4\<rparr> \<and>
   mutationRate \<lparr>weights = [1], mutationRate = 1/4\<rparr> \<le> 3/10 \<and>
   liveOracle exampleOracle \<and>
   mutateSelfAdaptive exampleOracle 0 \<lparr>weights = [1], mutationRate = 1/4\<rparr>
     = Some (\<lparr>weights = [1], mutationRate = 3/10\<rparr>, 3) \<and>
   mutateRepeatedly 2 exampleOracle 0 \<lparr>weights = [1], mutationRate = 1/4\<rparr>
     = Some (\<lparr>weights = [1], mutationRate = 3/10\<rparr>, 5)"
proof -
  let ?g = "\<lparr>weights = [1], mutationRate = 1/4\<rparr>"
  have r: "1/1000 \<le> mutationRate ?g" "mutationRate ?g \<le> 3/10"
    by simp_all
  have live: "liveOracle exampleOracle"
    unfolding liveOracle_def exampleOracle_def
  proof
    fix k :: nat
    show "\<exists>j. (if k + j = 0 then 0 else 9/10 :: real) \<noteq> 0"
      by (rule exI [of _ 1]) simp
  qed
  have one: "mutateSelfAdaptive exampleOracle 0 ?g = Some (\<lparr>weights = [1], mutationRate = 3/10\<rparr>, 3)"
    by (simp add: mutateSelfAdaptive_def adaptRate_def exampleOracle_def Genome_copy_def Let_def)
  have two: "mutateSelfAdaptive exampleOracle 3 \<lparr>weights = [1], mutationRate = 3/10\<rparr>
      = Some (\<lparr>weights = [1], mutationRate = 3/10\<rparr>, 5)"
    by (simp add: mutateSelfAdaptive_def adaptRate_def exampleOracle_def Genome_copy_def Let_def)
  have rep: "mutateRepeatedly 2 exampleOracle 0 ?g = Some (\<lparr>weights = [1], mutationRate = 3/10\<rparr>, 5)"
    by (simp add: numeral_2_eq_2 one two)
  from mutationRate_stays_in_range [OF r, of exampleOracle 0 2] live one rep r show ?thesis
    by simp
qed

section \<open>Wrapping at the world bounds\<close>

lemma wrapCoordinate_cases:
  "wrapCoordinate bound c = (if c < 0 then bound else if c > bound then 0 else c)"
  by (simp add: wrapCoordinate_def)

text \<open>
  C2 (as the code has it). After the integration step of \<^verbatim>\<open>updatePhysics\<close>, a
  negative x coordinate becomes the world width, an x coordinate strictly above the world
  width becomes 0, and an x coordinate from 0 up to and including the world width stays
  as it is; the y coordinate likewise with the world height.
\<close>

theorem updatePhysics_wrap:
  "xc (position (updatePhysics cfg mm a)) =
     (if xc (integratedPosition cfg mm a) < 0 then worldWidth cfg
      else if xc (integratedPosition cfg mm a) > worldWidth cfg then 0
      else xc (integratedPosition cfg mm a)) \<and>
   yc (position (updatePhysics cfg mm a)) =
     (if yc (integratedPosition cfg mm a) < 0 then worldHeight cfg
      else if yc (integratedPosition cfg mm a) > worldHeight cfg then 0
      else yc (integratedPosition cfg mm a))"
  by (simp add: updatePhysics_def integratedPosition_def wrapCoordinate_cases Let_def)

lemma integratedPosition_resting: "integratedPosition config 1 (restingAgent px py e) = \<lparr>xc = px, yc = py\<rparr>"
  by (simp add: integratedPosition_def restingAgent_def addVectors_def multiplyVector_def
      limitVector_def magnitudeVector_def config_def)

lemma updatePhysics_resting:
  "position (updatePhysics config 1 (restingAgent px py e)) =
     \<lparr>xc = wrapCoordinate 800 px, yc = wrapCoordinate 600 py\<rparr>"
  by (simp add: updatePhysics_def restingAgent_def addVectors_def multiplyVector_def
      limitVector_def magnitudeVector_def config_def Let_def)

lemma config_world: "worldWidth config = 800" "worldHeight config = 600"
  by (simp_all add: config_def)

text \<open>
  An agent at rest on the right edge: after integration its x coordinate is the world
  width, and it stays there instead of moving to 0.
\<close>

theorem updatePhysics_wrap_counterexample:
  "xc (integratedPosition config 1 (restingAgent 800 300 50)) = worldWidth config \<and>
   xc (position (updatePhysics config 1 (restingAgent 800 300 50))) = worldWidth config \<and>
   xc (position (updatePhysics config 1 (restingAgent 800 300 50))) \<noteq> 0"
  by (simp add: integratedPosition_resting updatePhysics_resting wrapCoordinate_def config_world)

theorem updatePhysics_wrap_witness:
  "xc (position (updatePhysics config 1 (restingAgent (- 1) 300 50))) = 800 \<and>
   xc (position (updatePhysics config 1 (restingAgent 801 300 50))) = 0 \<and>
   xc (position (updatePhysics config 1 (restingAgent 800 300 50))) = 800 \<and>
   yc (position (updatePhysics config 1 (restingAgent 800 600 50))) = 600"
  using updatePhysics_wrap [of config 1 "restingAgent (- 1) 300 50"]
    updatePhysics_wrap [of config 1 "restingAgent 801 300 50"]
    updatePhysics_wrap [of config 1 "restingAgent 800 300 50"]
    updatePhysics_wrap [of config 1 "restingAgent 800 600 50"]
  by (simp add: integratedPosition_resting config_world)

section \<open>The rotating window of full updates\<close>

lemma batchPeriod_pos: "0 < n \<Longrightarrow> 0 < batchPeriod n"
  by (simp add: batchPeriod_def agentBatchSize_def div_greater_zero_iff gcd_le1_nat)

lemma ten_period: "10 * batchPeriod n = (10 div gcd n 10) * n"
proof -
  let ?g = "gcd n 10"
  have g: "0 < ?g" by simp
  obtain a where a: "n = ?g * a"
    using gcd_dvd1 [of n 10] by (auto simp: dvd_def)
  obtain b where b: "10 = ?g * b"
    using gcd_dvd2 [of n 10] by (auto simp: dvd_def)
  have "n div ?g = a"
    using a g by (metis nonzero_mult_div_cancel_left less_numeral_extra(3))
  moreover have "10 div ?g = b"
    using b g by (metis nonzero_mult_div_cancel_left less_numeral_extra(3))
  moreover have "10 * a = b * n"
  proof -
    have "10 * a = (?g * b) * a" using b by simp
    also have "\<dots> = b * (?g * a)" by (simp add: mult.commute mult.left_commute)
    also have "\<dots> = b * n" using a by simp
    finally show ?thesis .
  qed
  ultimately show ?thesis
    by (simp add: batchPeriod_def agentBatchSize_def)
qed

lemma batchStart_mod_period: "batchStart n t = batchStart n (t mod batchPeriod n)"
proof -
  let ?P = "batchPeriod n"
  have "(t mod ?P) * 10 + ((t div ?P) * (10 div gcd n 10)) * n
        = (t mod ?P) * 10 + (t div ?P) * (10 * ?P)"
    by (simp add: ten_period)
  also have "\<dots> = (t div ?P * ?P + t mod ?P) * 10"
    by (simp only: distrib_right mult.assoc mult.commute [of ?P 10] add.commute)
  also have "\<dots> = t * 10"
    by simp
  finally have "t * 10 = (t mod ?P) * 10 + ((t div ?P) * (10 div gcd n 10)) * n"
    by simp
  then show ?thesis
    by (simp add: batchStart_def agentBatchSize_def)
qed

lemma shift_into_run:
  assumes "0 < (P::nat)"
  shows "\<exists>t. t0 \<le> t \<and> t < t0 + P \<and> t mod P = t1 mod P"
proof -
  let ?r = "(t1 mod P + (P - t0 mod P)) mod P"
  have "t0 mod P < P" using assms by simp
  then have "(t0 + ?r) mod P = (t0 mod P + (t1 mod P + (P - t0 mod P))) mod P"
    by (metis mod_add_eq mod_mod_trivial)
  also have "t0 mod P + (t1 mod P + (P - t0 mod P)) = t1 mod P + P"
    using \<open>t0 mod P < P\<close> by simp
  finally have "(t0 + ?r) mod P = t1 mod P"
    by simp
  moreover have "?r < P" using assms by simp
  ultimately show ?thesis
    by (intro exI [of _ "t0 + ?r"]) simp
qed

lemma batchStart_reaches:
  assumes "0 < n"
  shows "\<exists>t1. batchStart n t1 = (gcd n 10 * c) mod n"
proof -
  obtain x y where xy: "10 * x = n * y + gcd 10 n"
    using bezout_nat [of 10 n] by auto
  have "(x * c) * 10 = (y * c) * n + gcd n 10 * c"
    using xy by (metis add_mult_distrib gcd.commute mult.assoc mult.commute)
  then have "batchStart n (x * c) = (gcd n 10 * c) mod n"
    by (simp add: batchStart_def agentBatchSize_def)
  then show ?thesis ..
qed

lemma window_in_every_run:
  assumes "20 < n" "i < n"
  shows "\<exists>t. t0 \<le> t \<and> t < t0 + batchPeriod n \<and> fullUpdateAt n t i"
proof -
  let ?g = "gcd n 10"
  let ?s = "?g * (i div ?g)"
  have g: "0 < ?g" "?g \<le> 10"
    using assms by (simp_all add: gcd_le2_nat)
  have "i = ?s + i mod ?g" by simp
  moreover have "i mod ?g < ?g" using g(1) by simp
  ultimately have s: "?s \<le> i" "i < ?s + ?g"
    by linarith+
  have n: "0 < n" using assms by simp
  from batchStart_reaches [OF n, of "i div ?g"] obtain t1 where
    "batchStart n t1 = ?s mod n" by blast
  then have t1: "batchStart n t1 = ?s"
    using s(1) assms(2) by simp
  from shift_into_run [OF batchPeriod_pos [OF n], of t0 t1] obtain t where
    t: "t0 \<le> t" "t < t0 + batchPeriod n" "t mod batchPeriod n = t1 mod batchPeriod n"
    by blast
  have "batchStart n t = ?s"
    using batchStart_mod_period [of n t] batchStart_mod_period [of n t1] t(3) t1 by simp
  moreover have "i < ?s + 10"
    using s(2) g(2) by linarith
  ultimately have "fullUpdateAt n t i"
    using assms s(1) by (simp add: fullUpdateAt_def batchEnd_def agentBatchSize_def)
  with t show ?thesis by blast
qed

lemma filter_upt_split:
  "filter Q [t..<t + (a + b)] = filter Q [t..<t + a] @ filter Q [t + a..<t + a + b]"
  by (metis add.assoc filter_append le_add1 upt_add_eq_append)

lemma fullUpdateCount_lower:
  assumes "20 < n" "i < n"
  shows "m div batchPeriod n \<le> fullUpdateCount n t0 m i"
proof (induction m arbitrary: t0 rule: less_induct)
  case (less m)
  let ?P = "batchPeriod n"
  have P: "0 < ?P" using assms batchPeriod_pos by simp
  show ?case
  proof (cases "m < ?P")
    case True
    then show ?thesis by simp
  next
    case False
    then have m: "m = ?P + (m - ?P)" by simp
    from window_in_every_run [OF assms, of t0] obtain t where
      t: "t0 \<le> t" "t < t0 + ?P" "fullUpdateAt n t i" by blast
    then have "t \<in> set (filter (\<lambda>tick. fullUpdateAt n tick i) [t0..<t0 + ?P])"
      by simp
    then have one: "1 \<le> fullUpdateCount n t0 ?P i"
      unfolding fullUpdateCount_def
      by (metis One_nat_def Suc_leI length_greater_0_conv length_pos_if_in_set)
    have rest: "(m - ?P) div ?P \<le> fullUpdateCount n (t0 + ?P) (m - ?P) i"
      using less.IH [of "m - ?P" "t0 + ?P"] P False by simp
    have "fullUpdateCount n t0 m i = fullUpdateCount n t0 ?P i + fullUpdateCount n (t0 + ?P) (m - ?P) i"
      unfolding fullUpdateCount_def
      using filter_upt_split [of "\<lambda>tick. fullUpdateAt n tick i" t0 ?P "m - ?P"] m by simp
    moreover have "m div ?P = 1 + (m - ?P) div ?P"
      using False P by (simp add: le_div_geq)
    ultimately show ?thesis
      using one rest by simp
  qed
qed

text \<open>
  C1 (as the code has it). With more than 20 agents, the window of tick \<open>t\<close> is the
  index range from \<open>(t * 10) mod n\<close> up to, not including, the minimum of that start
  plus 10 and \<open>n\<close>. Every position of the roster is in the window of at least one tick
  of every run of \<open>n div gcd n 10\<close> consecutive ticks, so an agent at a fixed position
  for \<open>m\<close> consecutive ticks gets at least \<open>m div (n div gcd n 10)\<close> full updates.
  When 10 divides \<open>n\<close> that run length is \<open>ceil (n / 10)\<close>.
\<close>

theorem batch_window_fairness:
  assumes "20 < n" "i < n"
  shows "(fullUpdateAt n t i \<longleftrightarrow> (t * 10) mod n \<le> i \<and> i < min ((t * 10) mod n + 10) n) \<and>
         (\<exists>t. t0 \<le> t \<and> t < t0 + n div gcd n 10 \<and> fullUpdateAt n t i) \<and>
         m div (n div gcd n 10) \<le> fullUpdateCount n t0 m i \<and>
         (if 10 dvd n then n div gcd n 10 = nat \<lceil>real n / 10\<rceil> else True)"
proof -
  have a: "fullUpdateAt n t i \<longleftrightarrow> (t * 10) mod n \<le> i \<and> i < min ((t * 10) mod n + 10) n"
    using assms by (simp add: fullUpdateAt_def batchStart_def batchEnd_def agentBatchSize_def)
  have d: "n div gcd n 10 = nat \<lceil>real n / 10\<rceil>" if "10 dvd n"
  proof -
    from that obtain q where q: "n = 10 * q" by (auto simp: dvd_def)
    then have "gcd n 10 = 10" by simp
    then show ?thesis using q by simp
  qed
  from a window_in_every_run [OF assms, of t0] fullUpdateCount_lower [OF assms, of m t0] d
  show ?thesis
    by (simp add: batchPeriod_def agentBatchSize_def)
qed

text \<open>
  With 25 agents the starts are 10, 20, 5, 15, 0, ...: the three ticks 1, 2, 3 (a run of
  \<open>ceil (25 / 10) = 3\<close> ticks) have the windows [10, 20), [20, 25) and [5, 15), none of
  which holds position 0.
\<close>

lemma fullUpdateAt_25:
  "fullUpdateAt 25 t 0 \<longleftrightarrow> (t * 10) mod 25 = 0"
  by (simp add: fullUpdateAt_def batchStart_def batchEnd_def agentBatchSize_def)

theorem batch_window_fairness_counterexample:
  "nat \<lceil>real (25::nat) / 10\<rceil> = 3 \<and>
   \<not> fullUpdateAt 25 1 0 \<and> \<not> fullUpdateAt 25 2 0 \<and> \<not> fullUpdateAt 25 3 0 \<and>
   fullUpdateCount 25 1 3 0 = 0"
proof -
  have "nat \<lceil>real (25::nat) / 10\<rceil> = 3"
    by code_simp
  moreover have w: "\<not> fullUpdateAt 25 1 0" "\<not> fullUpdateAt 25 2 0" "\<not> fullUpdateAt 25 3 0"
    by (simp_all add: fullUpdateAt_25)
  moreover have "[1..<1 + 3] = [1, 2, 3::nat]"
    by (simp add: upt_rec)
  then have "fullUpdateCount 25 1 3 0 = 0"
    using w by (simp add: fullUpdateCount_def)
  ultimately show ?thesis by simp
qed

theorem batch_window_fairness_witness:
  "(20::nat) < 25 \<and> (0::nat) < 25 \<and> fullUpdateAt 25 5 0 \<and> (25::nat) div gcd 25 10 = 5 \<and>
   3 \<le> fullUpdateCount 25 1 15 0"
proof -
  have h: "(20::nat) < 25" "(0::nat) < 25" by simp_all
  have p: "(25::nat) div gcd 25 10 = 5"
    by code_simp
  have "fullUpdateAt 25 5 0"
    by (simp add: fullUpdateAt_25)
  with batch_window_fairness [OF h, of 5 1 15] p h show ?thesis
    by simp
qed

section \<open>Reproduction\<close>

lemma reproduceGenome_asexual:
  assumes "self < length roster"
    and "partnerOpt = None \<or> (\<exists>p. partnerOpt = Some p \<and> p < length roster \<and> p \<noteq> self \<and>
           \<not> energy (roster ! p) > agentReproductionEnergy cfg)"
  shows "reproduceGenome cfg gen rnd k roster self partnerOpt =
           Inr (genome (roster ! self), roster[self := halveEnergy (roster ! self)], k)"
  using assms
  by (auto simp: reproduceGenome_def halveEnergy_def canReproduce_def Genome_copy_def Let_def)

lemma reproduceGenome_sexual:
  assumes "self < length roster" "p < length roster" "p \<noteq> self"
    and "energy (roster ! p) > agentReproductionEnergy cfg"
    and "crossover rnd k (genome (roster ! self)) (genome (roster ! p)) (selectCrossoverType gen)
           = Inr (cg, k1)"
  shows "reproduceGenome cfg gen rnd k roster self (Some p) =
           Inr (cg\<lparr>mutationRate :=
                    (mutationRate (genome (roster ! self)) + mutationRate (genome (roster ! p))) / 2\<rparr>,
                roster[self := halveEnergy (roster ! self), p := halveEnergy (roster ! p)], k1)"
  using assms
  by (simp add: reproduceGenome_def halveEnergy_def canReproduce_def Let_def)

lemma crossover_returns:
  assumes "length (weights p1) = length (weights p2)"
  shows "\<exists>cg k1. crossover rnd k p1 p2 ty = Inr (cg, k1)"
  using assms by (cases ty) (simp_all add: crossover_def Let_def)

lemma reproduceGenome_self_energy:
  assumes "self < length roster" "\<forall>p. partnerOpt = Some p \<longrightarrow> p < length roster \<and> p \<noteq> self"
    and "reproduceGenome cfg gen rnd k roster self partnerOpt = Inr (cg, roster', k')"
  shows "energy (roster' ! self) = energy (roster ! self) / 2 \<and> length roster' = length roster"
  using assms
  by (auto simp: reproduceGenome_def Let_def split: option.splits if_splits sum.splits)

lemma reproduce_roster:
  assumes "reproduce cfg gen rnd k roster self partnerOpt = Inr (child, roster', k')"
  shows "\<exists>cg k1. reproduceGenome cfg gen rnd k roster self partnerOpt = Inr (cg, roster', k1)"
  using assms
  by (auto simp: reproduce_def Let_def split: sum.splits prod.splits)

lemma newAgent_returns:
  assumes "newNeuralNetwork (inputNeurons cfg) (hiddenNeurons cfg) (outputNeurons cfg) = Inr layers"
  shows "\<exists>a k'. newAgent cfg rnd k positionOpt genomeOpt aid = Inr (a, k')"
  using assms
  by (simp add: newAgent_def Genome_createNetwork_def Let_def split: prod.splits)

lemma config_network: "newNeuralNetwork (inputNeurons config) (hiddenNeurons config) (outputNeurons config) = Inr [16, 12, 3]"
  by (simp add: newNeuralNetwork_def config_def)

text \<open>
  C5 (as the code has it). \<^verbatim>\<open>reproduce\<close>, when it returns, has halved the energy of
  the invoking agent. With a partner (another agent of the roster) whose energy is
  strictly above the reproduction threshold and whose genome has the same length, the
  energy of the partner is halved too, and the genome of the child before mutation is the
  result of \<^verbatim>\<open>crossover\<close> with the strategy of the generation (UNIFORM below 5,
  SINGLE_POINT below 15, MULTI_POINT from 15 on), its mutation rate set to the average of
  the parents' rates. With no partner, or with a partner whose energy is not above the
  threshold, nothing but the energy of the invoking agent changes and the genome of the
  child before mutation is a copy of the invoking agent's genome.
\<close>

theorem reproduce_energy_and_genome:
  assumes "self < length roster"
    and "\<forall>p. partnerOpt = Some p \<longrightarrow> p < length roster \<and> p \<noteq> self"
  shows "(\<forall>child roster' k'.
            reproduce cfg gen rnd k roster self partnerOpt = Inr (child, roster', k')
            \<longrightarrow> energy (roster' ! self) = energy (roster ! self) / 2 \<and>
                (\<exists>cg k1. reproduceGenome cfg gen rnd k roster self partnerOpt = Inr (cg, roster', k1)))
         \<and>
         (\<forall>p. partnerOpt = Some p \<and> energy (roster ! p) > agentReproductionEnergy cfg \<and>
               length (weights (genome (roster ! self))) = length (weights (genome (roster ! p)))
            \<longrightarrow> (\<exists>cg k1.
                   crossover rnd k (genome (roster ! self)) (genome (roster ! p))
                     (if gen < 5 then UNIFORM else if gen < 15 then SINGLE_POINT else MULTI_POINT)
                     = Inr (cg, k1) \<and>
                   reproduceGenome cfg gen rnd k roster self partnerOpt =
                     Inr (cg\<lparr>mutationRate :=
                              (mutationRate (genome (roster ! self))
                               + mutationRate (genome (roster ! p))) / 2\<rparr>,
                          roster[self := halveEnergy (roster ! self), p := halveEnergy (roster ! p)],
                          k1)))
         \<and>
         (partnerOpt = None \<or>
          (\<exists>p. partnerOpt = Some p \<and> \<not> energy (roster ! p) > agentReproductionEnergy cfg)
            \<longrightarrow> reproduceGenome cfg gen rnd k roster self partnerOpt =
                  Inr (genome (roster ! self), roster[self := halveEnergy (roster ! self)], k))"
proof (intro conjI allI impI)
  fix child roster' k'
  assume r: "reproduce cfg gen rnd k roster self partnerOpt = Inr (child, roster', k')"
  from reproduce_roster [OF r] obtain cg k1 where
    g: "reproduceGenome cfg gen rnd k roster self partnerOpt = Inr (cg, roster', k1)"
    by blast
  from reproduceGenome_self_energy [OF assms g]
  show "energy (roster' ! self) = energy (roster ! self) / 2"
    by simp
  from g show "\<exists>cg k1. reproduceGenome cfg gen rnd k roster self partnerOpt = Inr (cg, roster', k1)"
    by blast
next
  fix p
  assume a: "partnerOpt = Some p \<and> energy (roster ! p) > agentReproductionEnergy cfg \<and>
             length (weights (genome (roster ! self))) = length (weights (genome (roster ! p)))"
  then have p: "p < length roster" "p \<noteq> self"
    using assms(2) by simp_all
  from a crossover_returns [of "genome (roster ! self)" "genome (roster ! p)" rnd k "selectCrossoverType gen"]
  obtain cg k1 where
    c: "crossover rnd k (genome (roster ! self)) (genome (roster ! p)) (selectCrossoverType gen) = Inr (cg, k1)"
    by blast
  from reproduceGenome_sexual [OF assms(1) p _ c] a c
  show "\<exists>cg k1.
          crossover rnd k (genome (roster ! self)) (genome (roster ! p))
            (if gen < 5 then UNIFORM else if gen < 15 then SINGLE_POINT else MULTI_POINT)
            = Inr (cg, k1) \<and>
          reproduceGenome cfg gen rnd k roster self partnerOpt =
            Inr (cg\<lparr>mutationRate :=
                     (mutationRate (genome (roster ! self)) + mutationRate (genome (roster ! p))) / 2\<rparr>,
                 roster[self := halveEnergy (roster ! self), p := halveEnergy (roster ! p)], k1)"
    by (simp add: selectCrossoverType_def)
next
  assume "partnerOpt = None \<or>
          (\<exists>p. partnerOpt = Some p \<and> \<not> energy (roster ! p) > agentReproductionEnergy cfg)"
  then have "partnerOpt = None \<or> (\<exists>p. partnerOpt = Some p \<and> p < length roster \<and> p \<noteq> self \<and>
           \<not> energy (roster ! p) > agentReproductionEnergy cfg)"
    using assms(2) by auto
  from reproduceGenome_asexual [OF assms(1) this]
  show "reproduceGenome cfg gen rnd k roster self partnerOpt =
          Inr (genome (roster ! self), roster[self := halveEnergy (roster ! self)], k)" .
qed


lemma exampleRoster_nth:
  "exampleRoster ! 0 = agentWith 80 [1, 1, 1, 1, 1]"
  "exampleRoster ! 1 = agentWith 90 [0, 0, 0, 0, 0]"
  "exampleRoster ! Suc 0 = agentWith 90 [0, 0, 0, 0, 0]"
  "exampleRoster ! 2 = agentWith 60 [2, 2, 2, 2, 2]"
  "length exampleRoster = 3"
  by (simp_all add: exampleRoster_def)

lemma agentWith_fields:
  "energy (agentWith e ws) = e" "genome (agentWith e ws) = newGenome ws"
  "halveEnergy (agentWith e ws) = agentWith (e / 2) ws"
  by (simp_all add: agentWith_def restingAgent_def halveEnergy_def)

lemma config_reproduction: "agentReproductionEnergy config = 70"
  by (simp add: config_def)

lemma single_point_example:
  "crossover (\<lambda>_. 2/5) 0 (newGenome [1, 1, 1, 1, 1]) (newGenome [0, 0, 0, 0, 0]) SINGLE_POINT
     = Inr (newGenome [1, 1, 0, 0, 0], 1)"
  by (simp add: crossover_def newGenome_def randomIndex_def)

text \<open>
  The partner has energy 60, not above the threshold 70: the call with a partner leaves
  the partner's energy at 60 and the genome of the child is the copy of the invoking
  agent's genome, with no draw for a crossover.
\<close>

theorem reproduce_energy_and_genome_counterexample:
  "reproduceGenome config 7 (\<lambda>_. 2/5) 0 exampleRoster 0 (Some 2) =
     Inr (newGenome [1, 1, 1, 1, 1],
          [agentWith 40 [1, 1, 1, 1, 1], agentWith 90 [0, 0, 0, 0, 0], agentWith 60 [2, 2, 2, 2, 2]], 0) \<and>
   map_sum id (\<lambda>(child, roster', k'). map energy roster')
     (reproduce config 7 (\<lambda>_. 2/5) 0 exampleRoster 0 (Some 2)) = Inr [40, 90, 60]"
proof -
  have g: "reproduceGenome config 7 (\<lambda>_. 2/5) 0 exampleRoster 0 (Some 2) =
     Inr (newGenome [1, 1, 1, 1, 1],
          [agentWith 40 [1, 1, 1, 1, 1], agentWith 90 [0, 0, 0, 0, 0], agentWith 60 [2, 2, 2, 2, 2]], 0)"
    using reproduceGenome_asexual [of 0 exampleRoster "Some 2" config 7 "\<lambda>_. 2/5" 0]
    by (simp add: exampleRoster_nth agentWith_fields config_reproduction) (simp add: exampleRoster_def)
  obtain mutated k2 where
    m: "mutate (\<lambda>_. 2/5) 0 (newGenome [1, 1, 1, 1, 1]) (cfgMutationRate config) (cfgMutationAmount config)
          = (mutated, k2)"
    by (cases "mutate (\<lambda>_. 2/5) 0 (newGenome [1, 1, 1, 1, 1]) (cfgMutationRate config) (cfgMutationAmount config)")
  from newAgent_returns [OF config_network] obtain childAgent k3 where
    "newAgent config (\<lambda>_. 2/5) (k2 + 2)
       (Some (addVectors (position (agentWith 40 [1, 1, 1, 1, 1])) \<lparr>xc = 2/5 * 20 - 10, yc = 2/5 * 20 - 10\<rparr>))
       (Some mutated) 0 = Inr (childAgent, k3)"
    by blast
  with g m have "map_sum id (\<lambda>(child, roster', k'). map energy roster')
     (reproduce config 7 (\<lambda>_. 2/5) 0 exampleRoster 0 (Some 2)) = Inr [40, 90, 60]"
    by (simp add: reproduce_def Let_def agentWith_fields)
  with g show ?thesis by simp
qed

theorem reproduce_energy_and_genome_witness:
  "(0::nat) < length exampleRoster \<and> (1::nat) < length exampleRoster \<and>
   reproduceGenome config 7 (\<lambda>_. 2/5) 0 exampleRoster 0 (Some 1) =
     Inr (newGenome [1, 1, 0, 0, 0],
          [agentWith 40 [1, 1, 1, 1, 1], agentWith 45 [0, 0, 0, 0, 0], agentWith 60 [2, 2, 2, 2, 2]], 1) \<and>
   reproduceGenome config 7 (\<lambda>_. 2/5) 0 exampleRoster 0 None =
     Inr (newGenome [1, 1, 1, 1, 1],
          [agentWith 40 [1, 1, 1, 1, 1], agentWith 90 [0, 0, 0, 0, 0], agentWith 60 [2, 2, 2, 2, 2]], 0)"
proof -
  have h: "(0::nat) < length exampleRoster" "(1::nat) < length exampleRoster"
    by (simp_all add: exampleRoster_nth)
  have p1: "\<forall>p. Some (1::nat) = Some p \<longrightarrow> p < length exampleRoster \<and> p \<noteq> 0"
    by (simp add: exampleRoster_nth)
  have p0: "\<forall>p. (None :: nat option) = Some p \<longrightarrow> p < length exampleRoster \<and> p \<noteq> 0"
    by simp
  note inst = reproduce_energy_and_genome [OF h(1) p1, of config 7 "\<lambda>_. 2/5" 0]
  have hyp: "Some (1::nat) = Some 1 \<and> energy (exampleRoster ! 1) > agentReproductionEnergy config \<and>
      length (weights (genome (exampleRoster ! 0))) = length (weights (genome (exampleRoster ! 1)))"
    by (simp add: exampleRoster_nth agentWith_fields config_reproduction newGenome_def)
  from inst hyp obtain cg k1 where
    c: "crossover (\<lambda>_. 2/5) 0 (genome (exampleRoster ! 0)) (genome (exampleRoster ! 1))
          (if (7::nat) < 5 then UNIFORM else if (7::nat) < 15 then SINGLE_POINT else MULTI_POINT) = Inr (cg, k1)"
    and r: "reproduceGenome config 7 (\<lambda>_. 2/5) 0 exampleRoster 0 (Some 1) =
          Inr (cg\<lparr>mutationRate :=
                   (mutationRate (genome (exampleRoster ! 0)) + mutationRate (genome (exampleRoster ! 1))) / 2\<rparr>,
               exampleRoster[0 := halveEnergy (exampleRoster ! 0), 1 := halveEnergy (exampleRoster ! 1)], k1)"
    by blast
  from c have cg: "cg = newGenome [1, 1, 0, 0, 0]" "k1 = 1"
    by (simp_all add: exampleRoster_nth agentWith_fields single_point_example)
  have sexual: "reproduceGenome config 7 (\<lambda>_. 2/5) 0 exampleRoster 0 (Some 1) =
     Inr (newGenome [1, 1, 0, 0, 0],
          [agentWith 40 [1, 1, 1, 1, 1], agentWith 45 [0, 0, 0, 0, 0], agentWith 60 [2, 2, 2, 2, 2]], 1)"
    unfolding r cg
    by (simp add: exampleRoster_nth agentWith_fields) (simp add: exampleRoster_def newGenome_def)
  have asexual: "reproduceGenome config 7 (\<lambda>_. 2/5) 0 exampleRoster 0 None =
     Inr (newGenome [1, 1, 1, 1, 1],
          [agentWith 40 [1, 1, 1, 1, 1], agentWith 90 [0, 0, 0, 0, 0], agentWith 60 [2, 2, 2, 2, 2]], 0)"
    using reproduce_energy_and_genome [OF h(1) p0, of config 7 "\<lambda>_. 2/5" 0]
    by (simp add: exampleRoster_nth agentWith_fields) (simp add: exampleRoster_def)
  from h sexual asexual show ?thesis by simp
qed

section \<open>Metabolism and death in the full update\<close>

lemma consumeFoods_none:
  "\<forall>i \<in> set idxs. \<not> eats a (fs ! i) \<Longrightarrow> consumeFoods cfg idxs a fs = (a, fs)"
  by (induction idxs) (simp_all add: Let_def)

lemma checkFoodConsumption_none:
  assumes "\<forall>i<length fs. \<not> (nearbyFood a (fs ! i) \<and> eats a (fs ! i))"
  shows "checkFoodConsumption cfg a fs = (a, fs)"
  unfolding checkFoodConsumption_def
  by (rule consumeFoods_none) (use assms in auto)

lemma checkObstacleCollisions_none:
  "\<forall>ob \<in> set obs. \<not> collides a ob \<Longrightarrow> checkObstacleCollisions a obs = a"
  by (induction obs) simp_all

lemma moved_fields:
  "energy (updatePhysics cfg mm a) = energy a" "dead (updatePhysics cfg mm a) = dead a"
  "age (updatePhysics cfg mm a) = age a"
  "energy (applyOutputs cfg outs a) = energy a" "dead (applyOutputs cfg outs a) = dead a"
  "age (applyOutputs cfg outs a) = age a"
  by (simp_all add: updatePhysics_def applyOutputs_def Let_def split: prod.splits)

lemma Agent_update_dies:
  assumes "energy a - agentMetabolismRate cfg * metabolismMultiplier a \<le> 0"
  shows "Agent_update cfg predict rnd k fs obs mm a =
           ((metabolised cfg a)\<lparr>dead := True\<rparr>, fs, k)"
  using assms by (simp add: Agent_update_def metabolised_def Let_def)

lemma Agent_update_lives:
  assumes "energy a - agentMetabolismRate cfg * metabolismMultiplier a > 0"
  shows "Agent_update cfg predict rnd k fs obs mm a =
           (let (a5, fs') = checkFoodConsumption cfg (movedAgent cfg predict rnd k fs obs mm a) fs;
                a6 = checkObstacleCollisions a5 obs
            in (a6\<lparr>fitness := real (age a6) + energy a6\<rparr>, fs', k + 1))"
  using assms by (simp add: Agent_update_def metabolised_def movedAgent_def Let_def)

lemma consumeFoods_dead: "dead (fst (consumeFoods cfg idxs a fs)) = dead a"
  by (induction idxs arbitrary: a fs) (simp_all add: Let_def)

lemma checkObstacleCollisions_dead: "dead (checkObstacleCollisions a obs) = dead a"
  by (induction obs arbitrary: a) (simp_all add: Let_def)

lemma Agent_update_lives_dead:
  assumes "energy a - agentMetabolismRate cfg * metabolismMultiplier a > 0"
  shows "dead (fst (Agent_update cfg predict rnd k fs obs mm a)) = dead a"
proof -
  let ?m = "movedAgent cfg predict rnd k fs obs mm a"
  have "dead (fst (Agent_update cfg predict rnd k fs obs mm a)) =
        dead (checkObstacleCollisions (fst (checkFoodConsumption cfg ?m fs)) obs)"
    by (simp add: Agent_update_lives [OF assms] Let_def split: prod.splits)
  also have "\<dots> = dead ?m"
    by (simp add: checkObstacleCollisions_dead checkFoodConsumption_def consumeFoods_dead)
  also have "\<dots> = dead a"
    by (simp add: movedAgent_def moved_fields metabolised_def)
  finally show ?thesis .
qed

lemma checkObstacleCollisions_energy:
  "energy (checkObstacleCollisions a obs) = energy a - 5 * real (collisionCount a obs)"
proof (induction obs arbitrary: a)
  case Nil
  show ?case by simp
next
  case (Cons ob rest)
  show ?case
  proof (cases "collides a ob")
    case False
    with Cons.IH [of a] show ?thesis by simp
  next
    case True
    let ?a1 = "checkObstacleCollisions a [ob]"
    have e1: "energy ?a1 = energy a - 5"
      using True by (simp add: Let_def)
    have "checkObstacleCollisions a (ob # rest) = checkObstacleCollisions ?a1 rest"
      using True by (simp add: Let_def)
    then have "energy (checkObstacleCollisions a (ob # rest)) = energy ?a1 - 5 * real (collisionCount ?a1 rest)"
      using Cons.IH [of ?a1] by simp
    also have "\<dots> = energy a - 5 * real (collisionCount a (ob # rest))"
      using True e1 by (simp only: collisionCount.simps if_True) simp
    finally show ?thesis .
  qed
qed

lemma collisionCount_none:
  "\<forall>ob \<in> set obs. \<not> collides a ob \<Longrightarrow> collisionCount a obs = 0"
  by (induction obs) simp_all

text \<open>
  C4 (as the code has it). In a full update, when the energy minus the base rate times
  the metabolism multiplier is 0 or less, the agent gets that energy, is marked dead, and
  nothing else of the tick happens to it (its age has grown by one; the food is
  untouched; no draw is made). When it is above 0 and the agent, where it has moved to,
  eats no food, its energy after the update is the energy before minus the base rate
  times the multiplier minus 5 for every obstacle that the collision loop finds it in
  collision with, and the food is untouched; when it touches no obstacle, that is the
  energy before minus the base rate times the multiplier. Whenever the energy after
  metabolism is above 0, the dead mark after the update is what it was before, whatever
  the collisions take.
\<close>

theorem metabolism_and_death:
  "(energy a - agentMetabolismRate cfg * metabolismMultiplier a \<le> 0
      \<longrightarrow> Agent_update cfg predict rnd k fs obs mm a =
            (a\<lparr>age := age a + 1,
               energy := energy a - agentMetabolismRate cfg * metabolismMultiplier a,
               dead := True\<rparr>, fs, k))
   \<and>
   (energy a - agentMetabolismRate cfg * metabolismMultiplier a > 0 \<and>
    (\<forall>i<length fs. \<not> (nearbyFood (movedAgent cfg predict rnd k fs obs mm a) (fs ! i) \<and>
                          eats (movedAgent cfg predict rnd k fs obs mm a) (fs ! i)))
      \<longrightarrow> energy (fst (Agent_update cfg predict rnd k fs obs mm a)) =
              energy a - agentMetabolismRate cfg * metabolismMultiplier a
              - 5 * real (collisionCount (movedAgent cfg predict rnd k fs obs mm a) obs) \<and>
          fst (snd (Agent_update cfg predict rnd k fs obs mm a)) = fs)
   \<and>
   (energy a - agentMetabolismRate cfg * metabolismMultiplier a > 0 \<and>
    (\<forall>i<length fs. \<not> (nearbyFood (movedAgent cfg predict rnd k fs obs mm a) (fs ! i) \<and>
                          eats (movedAgent cfg predict rnd k fs obs mm a) (fs ! i))) \<and>
    (\<forall>ob \<in> set obs. \<not> collides (movedAgent cfg predict rnd k fs obs mm a) ob)
      \<longrightarrow> energy (fst (Agent_update cfg predict rnd k fs obs mm a)) =
              energy a - agentMetabolismRate cfg * metabolismMultiplier a \<and>
          fst (snd (Agent_update cfg predict rnd k fs obs mm a)) = fs)
   \<and>
   (energy a - agentMetabolismRate cfg * metabolismMultiplier a > 0
      \<longrightarrow> dead (fst (Agent_update cfg predict rnd k fs obs mm a)) = dead a)"
proof -
  let ?m = "movedAgent cfg predict rnd k fs obs mm a"
  let ?e = "energy a - agentMetabolismRate cfg * metabolismMultiplier a"
  have dies: "Agent_update cfg predict rnd k fs obs mm a =
            (a\<lparr>age := age a + 1, energy := ?e, dead := True\<rparr>, fs, k)" if "?e \<le> 0"
    using Agent_update_dies [OF that] by (simp add: metabolised_def)
  have lives: "energy (fst (Agent_update cfg predict rnd k fs obs mm a)) =
                 ?e - 5 * real (collisionCount ?m obs)"
      "fst (snd (Agent_update cfg predict rnd k fs obs mm a)) = fs"
    if pos: "?e > 0" and nofood: "\<forall>i<length fs. \<not> (nearbyFood ?m (fs ! i) \<and> eats ?m (fs ! i))"
  proof -
    have f: "checkFoodConsumption cfg ?m fs = (?m, fs)"
      using nofood by (rule checkFoodConsumption_none)
    have u: "Agent_update cfg predict rnd k fs obs mm a =
        ((checkObstacleCollisions ?m obs)\<lparr>fitness :=
            real (age (checkObstacleCollisions ?m obs)) + energy (checkObstacleCollisions ?m obs)\<rparr>,
         fs, k + 1)"
      using pos by (simp add: Agent_update_lives f Let_def)
    have e: "energy ?m = ?e"
      by (simp add: movedAgent_def moved_fields metabolised_def)
    show "energy (fst (Agent_update cfg predict rnd k fs obs mm a)) =
            ?e - 5 * real (collisionCount ?m obs)"
      by (simp add: u checkObstacleCollisions_energy e)
    show "fst (snd (Agent_update cfg predict rnd k fs obs mm a)) = fs"
      by (simp add: u)
  qed
  have clear: "energy (fst (Agent_update cfg predict rnd k fs obs mm a)) = ?e"
    if "?e > 0" "\<forall>i<length fs. \<not> (nearbyFood ?m (fs ! i) \<and> eats ?m (fs ! i))"
      "\<forall>ob \<in> set obs. \<not> collides ?m ob"
    using lives(1) [OF that(1,2)] collisionCount_none [OF that(3)] by simp
  have mark: "dead (fst (Agent_update cfg predict rnd k fs obs mm a)) = dead a" if "?e > 0"
    using that by (rule Agent_update_lives_dead)
  from dies lives clear mark show ?thesis
    by blast
qed

lemma sqrt_zero_sum: "sqrt (0 * 0 + 0 * 0) = 0"
  by simp

lemma movedAgent_resting:
  "movedAgent config idleEvaluator rnd k fs obs 1 (restingAgent px py e) =
     (restingAgent (wrapCoordinate 800 px) (wrapCoordinate 600 py) (e - 1/10))\<lparr>age := 1\<rparr>"
  by (simp add: movedAgent_def metabolised_def idleEvaluator_def applyOutputs_def updatePhysics_def
      restingAgent_def config_def createVector_def normalizeVector_def magnitudeVector_def
      divideVector_def addVectors_def multiplyVector_def limitVector_def Let_def)


text \<open>
  An agent with energy 3 that rests inside an obstacle and eats nothing: the update
  takes 0.1 for the metabolism and 5 for the collision, so the energy ends at -2.1, not
  at 2.9, and the agent is not marked dead although its energy is below 0.
\<close>

lemma collides_resting:
  "collides (restingAgent 100 100 e\<lparr>age := n\<rparr>) exampleObstacle"
  by (simp add: collides_def restingAgent_def exampleObstacle_def distanceBetween_def
      subtractVectors_def magnitudeVector_def)

theorem metabolism_and_death_counterexample:
  "energy (restingAgent 100 100 3) - agentMetabolismRate config * metabolismMultiplier (restingAgent 100 100 3) = 29/10 \<and>
   energy (fst (Agent_update config idleEvaluator (\<lambda>_. 0) 0 [] [exampleObstacle] 1 (restingAgent 100 100 3))) = - 21/10 \<and>
   \<not> dead (fst (Agent_update config idleEvaluator (\<lambda>_. 0) 0 [] [exampleObstacle] 1 (restingAgent 100 100 3))) \<and>
   fst (snd (Agent_update config idleEvaluator (\<lambda>_. 0) 0 [] [exampleObstacle] 1 (restingAgent 100 100 3))) = []"
proof -
  have m: "movedAgent config idleEvaluator (\<lambda>_. 0) 0 [] [exampleObstacle] 1 (restingAgent 100 100 3)
      = (restingAgent 100 100 (29/10))\<lparr>age := 1\<rparr>"
    by (simp add: movedAgent_resting wrapCoordinate_def)
  have pos: "energy (restingAgent 100 100 3) - agentMetabolismRate config * metabolismMultiplier (restingAgent 100 100 3) = 29/10"
    by (simp add: restingAgent_def config_def)
  then have "energy (restingAgent 100 100 3) - agentMetabolismRate config * metabolismMultiplier (restingAgent 100 100 3) > 0"
    by simp
  from Agent_update_lives [OF this, of idleEvaluator "\<lambda>_. 0" 0 "[]" "[exampleObstacle]" 1]
  have "Agent_update config idleEvaluator (\<lambda>_. 0) 0 [] [exampleObstacle] 1 (restingAgent 100 100 3) =
      (let a6 = checkObstacleCollisions ((restingAgent 100 100 (29/10))\<lparr>age := 1\<rparr>) [exampleObstacle]
       in (a6\<lparr>fitness := real (age a6) + energy a6\<rparr>, [], 1))"
    by (simp add: m checkFoodConsumption_def)
  moreover have "energy (checkObstacleCollisions ((restingAgent 100 100 (29/10))\<lparr>age := 1\<rparr>) [exampleObstacle]) = - 21/10"
    "\<not> dead (checkObstacleCollisions ((restingAgent 100 100 (29/10))\<lparr>age := 1\<rparr>) [exampleObstacle])"
    by (simp_all add: collides_resting Let_def) (simp_all add: restingAgent_def)
  ultimately show ?thesis
    using pos by (simp add: Let_def)
qed

lemma sqrt_less_iff_square: "0 < b \<Longrightarrow> sqrt a < b \<longleftrightarrow> a < b * b"
  using real_sqrt_less_iff [of a "b * b"] by simp

lemma far_from_resting:
  "\<not> nearbyFood (restingAgent 100 100 e\<lparr>age := n\<rparr>) farFood"
  "\<not> collides (restingAgent 100 100 e\<lparr>age := n\<rparr>) farObstacle"
  by (simp_all add: nearbyFood_def collides_def restingAgent_def farFood_def farObstacle_def
      newFood_def distanceBetween_def subtractVectors_def magnitudeVector_def sqrt_less_iff_square)

theorem metabolism_and_death_witness:
  "Agent_update config idleEvaluator (\<lambda>_. 0) 0 [farFood] [farObstacle] 1 (restingAgent 100 100 (1/20)) =
     (restingAgent 100 100 (- 1/20)\<lparr>age := 1, dead := True\<rparr>, [farFood], 0) \<and>
   energy (fst (Agent_update config idleEvaluator (\<lambda>_. 0) 0 [farFood] [farObstacle] 1 (restingAgent 100 100 3))) = 29/10 \<and>
   \<not> dead (fst (Agent_update config idleEvaluator (\<lambda>_. 0) 0 [farFood] [farObstacle] 1 (restingAgent 100 100 3))) \<and>
   collisionCount (movedAgent config idleEvaluator (\<lambda>_. 0) 0 [farFood] [farObstacle, exampleObstacle] 1
                     (restingAgent 100 100 20)) [farObstacle, exampleObstacle] = 1 \<and>
   energy (fst (Agent_update config idleEvaluator (\<lambda>_. 0) 0 [farFood] [farObstacle, exampleObstacle] 1
                  (restingAgent 100 100 20))) = 149/10"
proof -
  let ?m = "movedAgent config idleEvaluator (\<lambda>_. 0) 0 [farFood] [farObstacle] 1 (restingAgent 100 100 3)"
  let ?n = "movedAgent config idleEvaluator (\<lambda>_. 0) 0 [farFood] [farObstacle, exampleObstacle] 1
              (restingAgent 100 100 20)"
  have d: "energy (restingAgent 100 100 (1/20))
      - agentMetabolismRate config * metabolismMultiplier (restingAgent 100 100 (1/20)) \<le> 0"
    by (simp add: restingAgent_def config_def)
  have m: "?m = (restingAgent 100 100 (29/10))\<lparr>age := 1\<rparr>"
    by (simp add: movedAgent_resting wrapCoordinate_def)
  have n: "?n = (restingAgent 100 100 (199/10))\<lparr>age := 1\<rparr>"
    by (simp add: movedAgent_resting wrapCoordinate_def)
  have l: "energy (restingAgent 100 100 3)
      - agentMetabolismRate config * metabolismMultiplier (restingAgent 100 100 3) > 0 \<and>
    (\<forall>i<length [farFood]. \<not> (nearbyFood ?m ([farFood] ! i) \<and> eats ?m ([farFood] ! i))) \<and>
    (\<forall>ob \<in> set [farObstacle]. \<not> collides ?m ob)"
    unfolding m by (simp add: far_from_resting) (simp add: restingAgent_def config_def)
  have h: "energy (restingAgent 100 100 20)
      - agentMetabolismRate config * metabolismMultiplier (restingAgent 100 100 20) > 0 \<and>
    (\<forall>i<length [farFood]. \<not> (nearbyFood ?n ([farFood] ! i) \<and> eats ?n ([farFood] ! i)))"
    unfolding n by (simp add: far_from_resting) (simp add: restingAgent_def config_def)
  have c: "collisionCount ?n [farObstacle, exampleObstacle] = 1"
    unfolding n by (simp add: far_from_resting collides_resting)
  from metabolism_and_death [of "restingAgent 100 100 (1/20)" config idleEvaluator "\<lambda>_. 0" 0 "[farFood]" "[farObstacle]" 1] d
  have one: "Agent_update config idleEvaluator (\<lambda>_. 0) 0 [farFood] [farObstacle] 1 (restingAgent 100 100 (1/20)) =
     (restingAgent 100 100 (- 1/20)\<lparr>age := 1, dead := True\<rparr>, [farFood], 0)"
    by (simp add: restingAgent_def config_def)
  from metabolism_and_death [of "restingAgent 100 100 3" config idleEvaluator "\<lambda>_. 0" 0 "[farFood]" "[farObstacle]" 1] l
  have two: "energy (fst (Agent_update config idleEvaluator (\<lambda>_. 0) 0 [farFood] [farObstacle] 1 (restingAgent 100 100 3))) = 29/10"
    "\<not> dead (fst (Agent_update config idleEvaluator (\<lambda>_. 0) 0 [farFood] [farObstacle] 1 (restingAgent 100 100 3)))"
    by (simp_all add: restingAgent_def config_def)
  from metabolism_and_death [of "restingAgent 100 100 20" config idleEvaluator "\<lambda>_. 0" 0 "[farFood]"
      "[farObstacle, exampleObstacle]" 1] h
  have "energy (fst (Agent_update config idleEvaluator (\<lambda>_. 0) 0 [farFood] [farObstacle, exampleObstacle] 1
                  (restingAgent 100 100 20))) =
        energy (restingAgent 100 100 20)
          - agentMetabolismRate config * metabolismMultiplier (restingAgent 100 100 20)
          - 5 * real (collisionCount ?n [farObstacle, exampleObstacle])"
    by blast
  then have three: "energy (fst (Agent_update config idleEvaluator (\<lambda>_. 0) 0 [farFood] [farObstacle, exampleObstacle] 1
                  (restingAgent 100 100 20))) = 149/10"
    unfolding c by (simp add: restingAgent_def config_def)
  from one two c three show ?thesis by simp
qed

section \<open>The generation transition\<close>

lemma energyHalved_refl: "energyHalved a a"
  unfolding energyHalved_def by (rule exI [of _ 0]) simp

lemma energyHalved_once: "energyHalved a (a\<lparr>energy := energy a / 2\<rparr>)"
  unfolding energyHalved_def by (rule exI [of _ 1]) simp

lemma energyHalved_trans:
  assumes "energyHalved a b" "energyHalved b c"
  shows "energyHalved a c"
proof -
  from assms obtain i j where "b = a\<lparr>energy := energy a / 2 ^ i\<rparr>" "c = b\<lparr>energy := energy b / 2 ^ j\<rparr>"
    by (auto simp: energyHalved_def)
  then have "c = a\<lparr>energy := energy a / 2 ^ (i + j)\<rparr>"
    by (simp add: power_add)
  then show ?thesis
    unfolding energyHalved_def by blast
qed

lemma rosterHalved_refl: "rosterHalved r r"
  by (simp add: rosterHalved_def energyHalved_refl)

lemma rosterHalved_trans: "rosterHalved a b \<Longrightarrow> rosterHalved b c \<Longrightarrow> rosterHalved a c"
  unfolding rosterHalved_def using energyHalved_trans by auto

lemma rosterHalved_update: "rosterHalved r (r[i := (r ! i)\<lparr>energy := energy (r ! i) / 2\<rparr>])"
proof -
  have "energyHalved (r ! j) (r[i := (r ! i)\<lparr>energy := energy (r ! i) / 2\<rparr>] ! j)" if "j < length r" for j
    using that energyHalved_refl [of "r ! j"] energyHalved_once [of "r ! j"]
    by (cases "j = i") simp_all
  then show ?thesis
    by (simp add: rosterHalved_def)
qed

lemma reproduceGenome_rosterHalved:
  assumes "reproduceGenome cfg gen rnd k roster self partnerOpt = Inr (cg, roster', k')"
  shows "rosterHalved roster roster'"
proof -
  let ?r1 = "roster[self := (roster ! self)\<lparr>energy := energy (roster ! self) / 2\<rparr>]"
  have r1: "rosterHalved roster ?r1"
    by (rule rosterHalved_update)
  have "roster' = ?r1 \<or> (\<exists>p. roster' = ?r1[p := (?r1 ! p)\<lparr>energy := energy (?r1 ! p) / 2\<rparr>])"
    using assms
    by (auto simp: reproduceGenome_def Let_def split: option.splits if_splits sum.splits)
  then show ?thesis
    using r1 rosterHalved_trans [OF r1 rosterHalved_update] by auto
qed

lemma reproduce_rosterHalved:
  assumes "reproduce cfg gen rnd k roster self partnerOpt = Inr (child, roster', k')"
  shows "rosterHalved roster roster'"
  using reproduce_roster [OF assms] reproduceGenome_rosterHalved by blast

lemma fillOffspring_result:
  "fillOffspring cfg gen rnd k survivors children lt sm = Some (Inr (newAgents, lt', sm', k'))
   \<Longrightarrow> \<exists>survivors' children'.
         newAgents = survivors' @ children' \<and> rosterHalved survivors survivors' \<and>
         length newAgents = max (initialAgentCount cfg) (length survivors + length children)"
proof (induction "initialAgentCount cfg - (length survivors + length children)"
    arbitrary: k survivors children lt sm rule: less_induct)
  case less
  show ?case
  proof (cases "length survivors + length children < initialAgentCount cfg")
    case False
    with less.prems have "newAgents = survivors @ children"
      by (subst (asm) fillOffspring.simps) simp
    with False show ?thesis
      using rosterHalved_refl by (intro exI [of _ survivors] exI [of _ children]) simp
  next
    case True
    let ?pi = "randomIndex rnd k (length survivors)"
    from less.prems True obtain partner k1 child survivors1 k2 i lt1 si sm1 k3 where
      cp: "choosePartner rnd (k + 1) (length survivors) ?pi = Some (partner, k1)"
      and rp: "reproduce cfg gen rnd k1 survivors ?pi partner = Inr (child, survivors1, k2)"
      and rec: "fillOffspring cfg gen rnd k3 survivors1
                  (children @ [child\<lparr>agentId := i, speciesRef := Some si\<rparr>]) lt1 sm1
                = Some (Inr (newAgents, lt', sm', k'))"
      by (subst (asm) fillOffspring.simps)
         (auto simp: Let_def split: option.splits sum.splits prod.splits)
    have h: "rosterHalved survivors survivors1"
      using reproduce_rosterHalved [OF rp] .
    then have len: "length survivors1 = length survivors"
      by (simp add: rosterHalved_def)
    have "initialAgentCount cfg - (length survivors1 + length (children @ [child\<lparr>agentId := i, speciesRef := Some si\<rparr>]))
          < initialAgentCount cfg - (length survivors + length children)"
      using True len by simp
    from less.hyps [OF this rec] obtain survivors' children' where
      r: "newAgents = survivors' @ children'" "rosterHalved survivors1 survivors'"
        "length newAgents = max (initialAgentCount cfg)
           (length survivors1 + length (children @ [child\<lparr>agentId := i, speciesRef := Some si\<rparr>]))"
      by blast
    have "length newAgents = max (initialAgentCount cfg) (length survivors + length children)"
      using r(3) len True by simp
    with r(1) rosterHalved_trans [OF h r(2)] show ?thesis
      by blast
  qed
qed


lemma pickPartner_differs:
  assumes "pickPartner rnd k n p = Some y"
  shows "fst y \<noteq> p"
  by (rule pickPartner.raw_induct [where P = "\<lambda>rnd k n p y. fst y \<noteq> p", OF _ assms])
     (auto split: if_splits)

lemma choosePartner_differs:
  assumes "choosePartner rnd k n p = Some (partner, k')"
  shows "partner \<noteq> Some p"
proof (cases "rnd k < 7/10 \<and> n > 1")
  case False
  with assms show ?thesis
    by (auto simp: choosePartner_def)
next
  case True
  with assms obtain q where q: "pickPartner rnd (k + 1) n p = Some (q, k')" "partner = Some q"
    by (auto simp: choosePartner_def split: option.splits)
  from pickPartner_differs [OF q(1)] q(2) show ?thesis
    by simp
qed

lemma nth_beyond:
  "length xs = length ys \<Longrightarrow> length xs \<le> n \<Longrightarrow> xs ! n = ys ! n"
proof (induction xs arbitrary: ys n)
  case Nil
  then show ?case by simp
next
  case (Cons x xs)
  then obtain y ys' where ys: "ys = y # ys'"
    by (cases ys) auto
  from Cons.prems obtain n' where n: "n = Suc n'"
    by (cases n) auto
  from Cons.IH [of ys' n'] Cons.prems show ?case
    by (simp add: ys n)
qed

lemma randomIndex_range:
  assumes "unitOracle rnd" "0 < n"
  shows "randomIndex rnd k n < n"
proof -
  from assms(1) have r: "0 \<le> rnd k" "rnd k < 1"
    by (simp_all add: unitOracle_def)
  with assms(2) have "rnd k * real n < real n" "0 \<le> rnd k * real n"
    by simp_all
  then have "\<lfloor>rnd k * real n\<rfloor> < int n"
    by (simp add: floor_less_iff)
  with assms(2) have "nat \<lfloor>rnd k * real n\<rfloor> < n"
    by linarith
  then show ?thesis
    by (simp add: randomIndex_def)
qed

lemma pickPartner_range:
  assumes "pickPartner rnd k n p = Some y"
  shows "unitOracle rnd \<longrightarrow> 0 < n \<longrightarrow> fst y < n"
  by (rule pickPartner.raw_induct
        [where P = "\<lambda>rnd k n p y. unitOracle rnd \<longrightarrow> 0 < n \<longrightarrow> fst y < n", OF _ assms])
     (auto split: if_splits simp: randomIndex_range)

lemma choosePartner_range:
  assumes "choosePartner rnd k n p = Some (Some q, k')" "unitOracle rnd"
  shows "q < n"
proof -
  from assms(1) have n: "n > 1" and q: "pickPartner rnd (k + 1) n p = Some (q, k')"
    by (auto simp: choosePartner_def split: if_splits option.splits)
  from pickPartner_range [OF q] assms(2) n show ?thesis
    by simp
qed

text \<open>What a call that returns has done to the roster, position by position.\<close>

lemma reproduceGenome_positions:
  assumes "reproduceGenome cfg gen rnd k roster self partnerOpt = Inr (cg, roster', k')"
    and "partnerOpt \<noteq> Some self"
  shows "length roster' = length roster"
    and "\<forall>i<length roster.
           roster' ! i =
             (if i = self \<or> (partnerOpt = Some i \<and> energy (roster ! i) > agentReproductionEnergy cfg)
              then halveEnergy (roster ! i) else roster ! i)"
proof -
  let ?r1 = "roster[self := halveEnergy (roster ! self)]"
  from assms(1) show "length roster' = length roster"
    by (auto simp: reproduceGenome_def Let_def split: option.splits if_splits sum.splits)
  show "\<forall>i<length roster.
           roster' ! i =
             (if i = self \<or> (partnerOpt = Some i \<and> energy (roster ! i) > agentReproductionEnergy cfg)
              then halveEnergy (roster ! i) else roster ! i)"
  proof (intro allI impI)
    fix i
    assume i: "i < length roster"
    show "roster' ! i =
             (if i = self \<or> (partnerOpt = Some i \<and> energy (roster ! i) > agentReproductionEnergy cfg)
              then halveEnergy (roster ! i) else roster ! i)"
    proof (cases partnerOpt)
      case None
      with assms(1) have "roster' = ?r1"
        by (simp add: reproduceGenome_def Let_def halveEnergy_def)
      with None i show ?thesis
        by (simp add: nth_list_update)
    next
      case (Some p)
      with assms(2) have ne: "p \<noteq> self"
        by simp
      then have same: "?r1 ! p = roster ! p"
        by simp
      show ?thesis
      proof (cases "canReproduce cfg (roster ! p)")
        case True
        with Some same assms(1) have "roster' = ?r1[p := halveEnergy (roster ! p)]"
          by (auto simp: reproduceGenome_def Let_def halveEnergy_def split: sum.splits)
        with Some True i ne show ?thesis
          by (cases "i = p") (auto simp: nth_list_update canReproduce_def)
      next
        case False
        with Some same assms(1) have "roster' = ?r1"
          by (simp add: reproduceGenome_def Let_def halveEnergy_def)
        with Some False i ne show ?thesis
          by (auto simp: nth_list_update canReproduce_def)
      qed
    qed
  qed
qed

lemma reproduce_positions:
  assumes "reproduce cfg gen rnd k roster self partnerOpt = Inr (child, roster', k')"
    and "partnerOpt \<noteq> Some self"
  shows "length roster' = length roster"
    and "\<forall>i<length roster.
           roster' ! i =
             (if i = self \<or> (partnerOpt = Some i \<and> energy (roster ! i) > agentReproductionEnergy cfg)
              then halveEnergy (roster ! i) else roster ! i)"
    and "\<forall>x. agentId (roster' ! x) = agentId (roster ! x)"
    and "agentParentIds child = callParentIds roster (self, partnerOpt)"
proof -
  from reproduce_roster [OF assms(1)] obtain cg k1 where
    g: "reproduceGenome cfg gen rnd k roster self partnerOpt = Inr (cg, roster', k1)"
    by blast
  note p = reproduceGenome_positions [OF g assms(2)]
  from p show len: "length roster' = length roster"
    and pos: "\<forall>i<length roster.
           roster' ! i =
             (if i = self \<or> (partnerOpt = Some i \<and> energy (roster ! i) > agentReproductionEnergy cfg)
              then halveEnergy (roster ! i) else roster ! i)"
    by simp_all
  show ids: "\<forall>x. agentId (roster' ! x) = agentId (roster ! x)"
  proof
    fix x
    show "agentId (roster' ! x) = agentId (roster ! x)"
    proof (cases "x < length roster")
      case True
      with pos show ?thesis
        by (simp add: halveEnergy_def)
    next
      case False
      with nth_beyond [of roster' roster x] len show ?thesis
        by simp
    qed
  qed
  from assms(1) g have "agentParentIds child = callParentIds roster' (self, partnerOpt)"
    by (auto simp: reproduce_def callParentIds_def Let_def split: sum.splits prod.splits option.splits)
  with ids show "agentParentIds child = callParentIds roster (self, partnerOpt)"
    by (simp add: callParentIds_def split: option.splits)
qed

lemma callParentIds_cong:
  "\<forall>x. agentId (roster' ! x) = agentId (roster ! x) \<Longrightarrow> callParentIds roster' c = callParentIds roster c"
  by (simp add: callParentIds_def split: option.splits)

text \<open>
  The loop invariant: the survivors of the result are the survivors of the state, each
  halved once more for every later call that charges it, and every later child has the
  parent ids of its call.
\<close>

lemma fillOffspring_charges:
  "fillOffspring cfg gen rnd k survivors children lt sm = Some (Inr (newAgents, lt', sm', k'))
   \<Longrightarrow> \<exists>calls survivors' children1.
         newAgents = survivors' @ children @ children1 \<and>
         length survivors' = length survivors \<and>
         length children1 = length calls \<and>
         length calls = initialAgentCount cfg - (length survivors + length children) \<and>
         (\<forall>c \<in> set calls. snd c \<noteq> Some (fst c)) \<and>
         (\<forall>i<length survivors. \<forall>a0 m.
            survivors ! i = a0\<lparr>energy := energy a0 / 2 ^ m\<rparr>
            \<longrightarrow> survivors' ! i = a0\<lparr>energy := energy a0 / 2 ^ chargeCount cfg a0 i calls m\<rparr>) \<and>
         (\<forall>j<length calls. agentParentIds (children1 ! j) = callParentIds survivors (calls ! j)) \<and>
         (unitOracle rnd \<and> survivors \<noteq> []
            \<longrightarrow> (\<forall>c \<in> set calls. fst c < length survivors \<and>
                                   (\<forall>p. snd c = Some p \<longrightarrow> p < length survivors)))"
proof (induction "initialAgentCount cfg - (length survivors + length children)"
    arbitrary: k survivors children lt sm rule: less_induct)
  case less
  show ?case
  proof (cases "length survivors + length children < initialAgentCount cfg")
    case False
    with less.prems have "newAgents = survivors @ children"
      by (subst (asm) fillOffspring.simps) simp
    with False show ?thesis
      by (intro exI [of _ "[]"] exI [of _ survivors]) simp
  next
    case True
    let ?pi = "randomIndex rnd k (length survivors)"
    from less.prems True obtain partner k1 child survivors1 k2 i lt1 si sm1 k3 where
      cp: "choosePartner rnd (k + 1) (length survivors) ?pi = Some (partner, k1)"
      and rp: "reproduce cfg gen rnd k1 survivors ?pi partner = Inr (child, survivors1, k2)"
      and rec: "fillOffspring cfg gen rnd k3 survivors1
                  (children @ [child\<lparr>agentId := i, speciesRef := Some si\<rparr>]) lt1 sm1
                = Some (Inr (newAgents, lt', sm', k'))"
      by (subst (asm) fillOffspring.simps)
         (auto simp: Let_def split: option.splits sum.splits prod.splits)
    let ?child = "child\<lparr>agentId := i, speciesRef := Some si\<rparr>"
    have ne: "partner \<noteq> Some ?pi"
      using cp by (rule choosePartner_differs)
    note rpos = reproduce_positions [OF rp ne]
    have len: "length survivors1 = length survivors"
      by (rule rpos(1))
    have "initialAgentCount cfg - (length survivors1 + length (children @ [?child]))
          < initialAgentCount cfg - (length survivors + length children)"
      using True len by simp
    from less.hyps [OF this rec] obtain calls survivors' children1 where
      r: "newAgents = survivors' @ (children @ [?child]) @ children1"
        "length survivors' = length survivors1"
        "length children1 = length calls"
        "length calls = initialAgentCount cfg - (length survivors1 + length (children @ [?child]))"
        "\<forall>c \<in> set calls. snd c \<noteq> Some (fst c)"
        "\<forall>i<length survivors1. \<forall>a0 m.
            survivors1 ! i = a0\<lparr>energy := energy a0 / 2 ^ m\<rparr>
            \<longrightarrow> survivors' ! i = a0\<lparr>energy := energy a0 / 2 ^ chargeCount cfg a0 i calls m\<rparr>"
        "\<forall>j<length calls. agentParentIds (children1 ! j) = callParentIds survivors1 (calls ! j)"
        "unitOracle rnd \<and> survivors1 \<noteq> []
            \<longrightarrow> (\<forall>c \<in> set calls. fst c < length survivors1 \<and>
                                   (\<forall>p. snd c = Some p \<longrightarrow> p < length survivors1))"
      by blast
    let ?calls = "(?pi, partner) # calls"
    let ?children1 = "?child # children1"
    have a: "newAgents = survivors' @ children @ ?children1"
      using r(1) by simp
    have b: "length survivors' = length survivors"
      using r(2) len by simp
    have c: "length ?children1 = length ?calls"
      using r(3) by simp
    have d: "length ?calls = initialAgentCount cfg - (length survivors + length children)"
      using r(4) len True by simp
    have e: "\<forall>c \<in> set ?calls. snd c \<noteq> Some (fst c)"
      using r(5) ne by simp
    have f: "survivors' ! x = a0\<lparr>energy := energy a0 / 2 ^ chargeCount cfg a0 x ?calls m\<rparr>"
      if x: "x < length survivors" and s: "survivors ! x = a0\<lparr>energy := energy a0 / 2 ^ m\<rparr>"
      for x a0 m
    proof -
      let ?ch = "x = ?pi \<or> (partner = Some x \<and> energy a0 / 2 ^ m > agentReproductionEnergy cfg)"
      let ?m' = "if ?ch then m + 1 else m"
      have "survivors1 ! x = (if ?ch then halveEnergy (survivors ! x) else survivors ! x)"
        using rpos(2) x s by simp
      then have "survivors1 ! x = a0\<lparr>energy := energy a0 / 2 ^ ?m'\<rparr>"
        using s by (simp add: halveEnergy_def)
      with r(6) x len have "survivors' ! x = a0\<lparr>energy := energy a0 / 2 ^ chargeCount cfg a0 x calls ?m'\<rparr>"
        by simp
      then show ?thesis
        by simp
    qed
    have g: "agentParentIds (?children1 ! j) = callParentIds survivors (?calls ! j)"
      if j: "j < length ?calls" for j
    proof (cases j)
      case 0
      with rpos(4) show ?thesis by simp
    next
      case (Suc j')
      with j r(7) have "agentParentIds (children1 ! j') = callParentIds survivors1 (calls ! j')"
        by simp
      with callParentIds_cong [OF rpos(3)] Suc show ?thesis
        by simp
    qed
    have h: "\<forall>c \<in> set ?calls. fst c < length survivors \<and> (\<forall>p. snd c = Some p \<longrightarrow> p < length survivors)"
      if u: "unitOracle rnd" and s: "survivors \<noteq> []"
    proof -
      have "?pi < length survivors"
        using u s by (simp add: randomIndex_range)
      moreover have "p < length survivors" if "partner = Some p" for p
        using cp that u choosePartner_range by blast
      moreover have "\<forall>c \<in> set calls. fst c < length survivors \<and> (\<forall>p. snd c = Some p \<longrightarrow> p < length survivors)"
        using r(8) u s len by auto
      ultimately show ?thesis
        by simp
    qed
    from a b c d e f g h show ?thesis
      by (intro exI [of _ ?calls] exI [of _ survivors'] exI [of _ ?children1]) blast
  qed
qed

lemma chargedSurvivors_nth:
  assumes "length survivors' = length survivors"
    and "\<forall>i<length survivors. \<forall>a0 m.
            survivors ! i = a0\<lparr>energy := energy a0 / 2 ^ m\<rparr>
            \<longrightarrow> survivors' ! i = a0\<lparr>energy := energy a0 / 2 ^ chargeCount cfg a0 i calls m\<rparr>"
  shows "survivors' = chargedSurvivors cfg survivors calls"
proof (rule nth_equalityI)
  show "length survivors' = length (chargedSurvivors cfg survivors calls)"
    using assms(1) by (simp add: chargedSurvivors_def)
  fix i
  assume "i < length survivors'"
  with assms(1) have i: "i < length survivors"
    by simp
  have "survivors ! i = (survivors ! i)\<lparr>energy := energy (survivors ! i) / 2 ^ (0::nat)\<rparr>"
    by simp
  with assms(2) i have "survivors' ! i =
      (survivors ! i)\<lparr>energy := energy (survivors ! i) / 2 ^ chargeCount cfg (survivors ! i) i calls 0\<rparr>"
    by blast
  with i show "survivors' ! i = chargedSurvivors cfg survivors calls ! i"
    by (simp add: chargedSurvivors_def)
qed

lemma chargeCount_parent:
  "\<forall>c \<in> set calls. fst c = i \<Longrightarrow> chargeCount cfg a i calls n = n + length calls"
proof (induction calls arbitrary: n)
  case Nil
  show ?case by simp
next
  case (Cons c calls)
  obtain parentIndex partnerOpt where c: "c = (parentIndex, partnerOpt)"
    by (cases c)
  with Cons.prems have "parentIndex = i" "\<forall>c \<in> set calls. fst c = i"
    by simp_all
  with Cons.IH [of "n + 1"] c show ?case
    by simp
qed

lemma survivorCount_div: "survivorCount n = (n + 3) div 4"
proof -
  define q where "q = (n + 3) div 4"
  have "4 * q < n + 4" "n \<le> 4 * q"
    unfolding q_def by presburger+
  then have "real (4 * q) < real (n + 4)" "real n \<le> real (4 * q)"
    by (simp_all only: of_nat_le_iff of_nat_less_iff)
  then have "real q - 1 < real n / 4" "real n / 4 \<le> real q"
    by simp_all
  then have "\<lceil>real n / 4\<rceil> = int q"
    by (intro ceiling_unique) simp_all
  then show ?thesis
    by (simp add: survivorCount_def q_def)
qed

lemma survivorCount_le: "survivorCount n \<le> n"
  by (simp add: survivorCount_div)

lemma selectSurvivors_length: "length (selectSurvivors roster) = (length roster + 3) div 4"
  using survivorCount_le [of "length roster"]
  by (simp add: selectSurvivors_def sortedAgents_def survivorCount_div)

lemma survivors_partition:
  "mset (selectSurvivors roster) + mset (nonSurvivors roster) = mset roster"
proof -
  have "mset (selectSurvivors roster) + mset (nonSurvivors roster) = mset (sortedAgents roster)"
    unfolding selectSurvivors_def nonSurvivors_def
    by (metis append_take_drop_id mset_append)
  then show ?thesis
    by (simp add: sortedAgents_def)
qed

lemma sortedAgents_descending:
  "sorted_wrt (\<lambda>a b. fitness b \<le> fitness a) (sortedAgents roster)"
proof -
  have "sorted (map (\<lambda>a. - fitness a) (sortedAgents roster))"
    by (simp add: sortedAgents_def)
  then show ?thesis
    by (simp add: sorted_wrt_map)
qed

lemma survivors_dominate:
  assumes "a \<in> set (selectSurvivors roster)" "b \<in> set (nonSurvivors roster)"
  shows "fitness b \<le> fitness a"
proof -
  have "sorted_wrt (\<lambda>a b. fitness b \<le> fitness a) (selectSurvivors roster @ nonSurvivors roster)"
    using sortedAgents_descending [of roster]
    by (simp add: selectSurvivors_def nonSurvivors_def)
  with assms show ?thesis
    by (auto simp: sorted_wrt_append)
qed

lemma survivors_descending:
  "sorted_wrt (\<lambda>a b. fitness b \<le> fitness a) (selectSurvivors roster)"
proof -
  have "sorted_wrt (\<lambda>a b. fitness b \<le> fitness a) (selectSurvivors roster @ nonSurvivors roster)"
    using sortedAgents_descending [of roster]
    by (simp add: selectSurvivors_def nonSurvivors_def)
  then show ?thesis
    by (simp add: sorted_wrt_append)
qed

lemma pickPartner_returns:
  "randomIndex rnd (k + j) n \<noteq> p \<Longrightarrow> \<exists>q k'. pickPartner rnd k n p = Some (q, k')"
proof (induction j arbitrary: k)
  case 0
  then show ?case
    by (subst pickPartner.simps) simp
next
  case (Suc j)
  show ?case
  proof (cases "randomIndex rnd k n = p")
    case True
    from Suc.prems have "randomIndex rnd ((k + 1) + j) n \<noteq> p" by simp
    from Suc.IH [of "k + 1", OF this] True show ?thesis
      by (subst pickPartner.simps) simp
  next
    case False
    then show ?thesis
      by (subst pickPartner.simps) simp
  qed
qed

lemma choosePartner_returns:
  assumes "partnerOracle rnd n"
  shows "\<exists>r. choosePartner rnd k n p = Some r"
proof (cases "rnd k < 7/10 \<and> n > 1")
  case True
  with assms obtain j where "randomIndex rnd ((k + 1) + j) n \<noteq> p"
    unfolding partnerOracle_def by blast
  from pickPartner_returns [of rnd "k + 1" j n p, OF this] True show ?thesis
    by (auto simp: choosePartner_def)
next
  case False
  then show ?thesis
    by (auto simp: choosePartner_def)
qed

lemma fillOffspring_returns:
  "partnerOracle rnd (length survivors)
   \<Longrightarrow> \<exists>r. fillOffspring cfg gen rnd k survivors children lt sm = Some r"
proof (induction "initialAgentCount cfg - (length survivors + length children)"
    arbitrary: k survivors children lt sm rule: less_induct)
  case less
  show ?case
  proof (cases "length survivors + length children < initialAgentCount cfg")
    case False
    then show ?thesis
      by (subst fillOffspring.simps) simp
  next
    case True
    let ?pi = "randomIndex rnd k (length survivors)"
    from choosePartner_returns [OF less.prems] obtain partner k1 where
      cp: "choosePartner rnd (k + 1) (length survivors) ?pi = Some (partner, k1)"
      by (metis surj_pair)
    show ?thesis
    proof (cases "reproduce cfg gen rnd k1 survivors ?pi partner")
      case (Inl e)
      with True cp show ?thesis
        by (subst fillOffspring.simps) (simp add: Let_def)
    next
      case (Inr res)
      then obtain child survivors1 k2 where
        rp: "reproduce cfg gen rnd k1 survivors ?pi partner = Inr (child, survivors1, k2)"
        by (cases res) auto
      have len: "length survivors1 = length survivors"
        using reproduce_rosterHalved [OF rp] by (simp add: rosterHalved_def)
      obtain i lt1 where rb: "registerBirth lt
              (case partner of
                 Some p \<Rightarrow> [agentId (survivors1 ! ?pi), agentId (survivors1 ! p)]
               | None \<Rightarrow> [agentId (survivors1 ! ?pi)]) 0 = (i, lt1)"
        by (metis surj_pair)
      show ?thesis
      proof (cases "assignSpecies sm rnd k2 (genome child) i")
        case (Inl e)
        with True cp rp rb show ?thesis
          by (subst fillOffspring.simps) (simp add: Let_def)
      next
        case (Inr res2)
        then obtain si sm1 k3 where
          asg: "assignSpecies sm rnd k2 (genome child) i = Inr (si, sm1, k3)"
          by (cases res2) auto
        have "initialAgentCount cfg - (length survivors1 + length (children @ [child\<lparr>agentId := i, speciesRef := Some si\<rparr>]))
              < initialAgentCount cfg - (length survivors + length children)"
          using True len by simp
        from less.hyps [OF this, of k3 lt1 sm1] less.prems len
        obtain r where "fillOffspring cfg gen rnd k3 survivors1
            (children @ [child\<lparr>agentId := i, speciesRef := Some si\<rparr>]) lt1 sm1 = Some r"
          by auto
        with True cp rp rb asg show ?thesis
          by (subst fillOffspring.simps) (simp add: Let_def)
      qed
    qed
  qed
qed


lemma fillOffspring_done:
  assumes "\<not> length survivors + length children < initialAgentCount cfg"
  shows "fillOffspring cfg gen rnd k survivors children lt sm = Some (Inr (survivors @ children, lt, sm, k))"
  using assms by (subst fillOffspring.simps) simp

lemma fillOffspring_step:
  assumes "length survivors + length children < initialAgentCount cfg"
    and "choosePartner rnd (k + 1) (length survivors) (randomIndex rnd k (length survivors)) = Some (partner, k1)"
    and "reproduce cfg gen rnd k1 survivors (randomIndex rnd k (length survivors)) partner
           = Inr (child, survivors1, k2)"
    and "registerBirth lt
           (case partner of
              Some p \<Rightarrow> [agentId (survivors1 ! randomIndex rnd k (length survivors)), agentId (survivors1 ! p)]
            | None \<Rightarrow> [agentId (survivors1 ! randomIndex rnd k (length survivors))]) 0 = (i, lt1)"
    and "assignSpecies sm rnd k2 (genome child) i = Inr (si, sm1, k3)"
  shows "fillOffspring cfg gen rnd k survivors children lt sm =
           fillOffspring cfg gen rnd k3 survivors1
             (children @ [child\<lparr>agentId := i, speciesRef := Some si\<rparr>]) lt1 sm1"
  using assms by (subst fillOffspring.simps) (simp add: Let_def)

lemma startNewGeneration_filled:
  assumes "agents sim \<noteq> []"
  shows "startNewGeneration cfg rnd k sim = Some (Inr (sim', k')) \<longleftrightarrow>
         (\<exists>newAgents lt1 sm1 k1.
            fillOffspring cfg (simGeneration sim + 1) rnd k (selectSurvivors (agents sim)) []
              (lineageAdvanceGeneration (lineageTracker sim))
              (speciesAdvanceGeneration (speciesManager sim)) = Some (Inr (newAgents, lt1, sm1, k1)) \<and>
            sim' = sim\<lparr>simGeneration := simGeneration sim + 1, tickCount := 0, agents := newAgents,
                       foods := fst (spawnFood cfg rnd k1 (initialFoodCount cfg) []),
                       speciesManager := sm1, lineageTracker := lt1\<rparr> \<and>
            k' = snd (spawnFood cfg rnd k1 (initialFoodCount cfg) []))"
  using assms
  by (auto simp: startNewGeneration_def Let_def split: option.splits sum.splits prod.splits)

text \<open>
  C3 (as the code has it). In a generation transition with a non-empty roster of at most
  the configured initial population size, the survivors are the first
  \<open>ceil (n / 4)\<close> agents of the old roster sorted by descending fitness: they are in
  descending order of fitness, they and the other agents make up the old roster, and no
  other agent is fitter than a survivor. When the transition returns, the new roster has
  the configured initial population size and starts with the survivors, in their order,
  each as it was except for its energy. The energy is the old energy halved once for
  every call of \<^verbatim>\<open>reproduce\<close> of the transition in which the survivor is the parent, or is
  the partner with its energy of that moment above the reproduction threshold. There is
  one call for every agent that the roster lacked; the partner of a call is never its
  parent; the child of the \<open>j\<close>-th call is the \<open>j\<close>-th agent behind the survivors and has
  the ids of the parent and of the partner as its parent ids; on an oracle with the range
  of \<^verbatim>\<open>Math.random\<close> the parent and the partner are positions among the survivors. The
  transition returns (or throws) whenever the draws of a partner do not repeat the index
  of the parent for ever.
\<close>

theorem generation_sizing:
  assumes "agents sim \<noteq> []" "length (agents sim) \<le> initialAgentCount cfg"
  shows "selectSurvivors (agents sim) =
           take (nat \<lceil>real (length (agents sim)) / 4\<rceil>) (sort_key (\<lambda>a. - fitness a) (agents sim)) \<and>
         sorted_wrt (\<lambda>a b. fitness b \<le> fitness a) (selectSurvivors (agents sim)) \<and>
         mset (selectSurvivors (agents sim)) + mset (nonSurvivors (agents sim)) = mset (agents sim) \<and>
         (\<forall>a \<in> set (selectSurvivors (agents sim)). \<forall>b \<in> set (nonSurvivors (agents sim)).
            fitness b \<le> fitness a) \<and>
         (\<forall>sim' k'. startNewGeneration cfg rnd k sim = Some (Inr (sim', k'))
            \<longrightarrow> length (agents sim') = initialAgentCount cfg \<and>
                rosterHalved (selectSurvivors (agents sim))
                  (take (length (selectSurvivors (agents sim))) (agents sim')) \<and>
                (\<exists>calls.
                   length calls = initialAgentCount cfg - length (selectSurvivors (agents sim)) \<and>
                   (\<forall>c \<in> set calls. snd c \<noteq> Some (fst c)) \<and>
                   (unitOracle rnd
                      \<longrightarrow> (\<forall>c \<in> set calls.
                             fst c < length (selectSurvivors (agents sim)) \<and>
                             (\<forall>p. snd c = Some p \<longrightarrow> p < length (selectSurvivors (agents sim))))) \<and>
                   take (length (selectSurvivors (agents sim))) (agents sim') =
                     chargedSurvivors cfg (selectSurvivors (agents sim)) calls \<and>
                   (\<forall>j<length calls.
                      agentParentIds (agents sim' ! (length (selectSurvivors (agents sim)) + j)) =
                        callParentIds (selectSurvivors (agents sim)) (calls ! j)))) \<and>
         (partnerOracle rnd (length (selectSurvivors (agents sim)))
            \<longrightarrow> startNewGeneration cfg rnd k sim \<noteq> None)"
proof -
  let ?S = "selectSurvivors (agents sim)"
  have one: "?S = take (nat \<lceil>real (length (agents sim)) / 4\<rceil>) (sort_key (\<lambda>a. - fitness a) (agents sim))"
    by (simp add: selectSurvivors_def sortedAgents_def survivorCount_def)
  have two: "sorted_wrt (\<lambda>a b. fitness b \<le> fitness a) ?S"
    by (rule survivors_descending)
  have three: "mset ?S + mset (nonSurvivors (agents sim)) = mset (agents sim)"
    by (rule survivors_partition)
  have four: "\<forall>a \<in> set ?S. \<forall>b \<in> set (nonSurvivors (agents sim)). fitness b \<le> fitness a"
    using survivors_dominate by blast
  have sne: "?S \<noteq> []"
  proof -
    from assms(1) have "0 < length (agents sim)"
      by simp
    then have "0 < (length (agents sim) + 3) div 4"
      by presburger
    then show ?thesis
      using selectSurvivors_length [of "agents sim"] by auto
  qed
  have sle: "length ?S \<le> initialAgentCount cfg"
    using assms(2) by (simp add: selectSurvivors_length)
  have five: "length (agents sim') = initialAgentCount cfg \<and>
      rosterHalved ?S (take (length ?S) (agents sim')) \<and>
      (\<exists>calls.
         length calls = initialAgentCount cfg - length ?S \<and>
         (\<forall>c \<in> set calls. snd c \<noteq> Some (fst c)) \<and>
         (unitOracle rnd
            \<longrightarrow> (\<forall>c \<in> set calls. fst c < length ?S \<and> (\<forall>p. snd c = Some p \<longrightarrow> p < length ?S))) \<and>
         take (length ?S) (agents sim') = chargedSurvivors cfg ?S calls \<and>
         (\<forall>j<length calls.
            agentParentIds (agents sim' ! (length ?S + j)) = callParentIds ?S (calls ! j)))"
    if run: "startNewGeneration cfg rnd k sim = Some (Inr (sim', k'))" for sim' k'
  proof -
    from run startNewGeneration_filled [OF assms(1)] obtain newAgents lt1 sm1 k1 where
      f: "fillOffspring cfg (simGeneration sim + 1) rnd k ?S []
            (lineageAdvanceGeneration (lineageTracker sim))
            (speciesAdvanceGeneration (speciesManager sim)) = Some (Inr (newAgents, lt1, sm1, k1))"
      and a: "agents sim' = newAgents"
      by auto
    from fillOffspring_result [OF f] obtain survivors0 children0 where
      r: "newAgents = survivors0 @ children0" "rosterHalved ?S survivors0"
        "length newAgents = max (initialAgentCount cfg) (length ?S + length ([]::Agent list))"
      by blast
    from r(3) a sle have size: "length (agents sim') = initialAgentCount cfg"
      by simp
    have "length survivors0 = length ?S"
      using r(2) by (simp add: rosterHalved_def)
    then have "take (length ?S) (agents sim') = survivors0"
      using a r(1) by simp
    with r(2) have halved: "rosterHalved ?S (take (length ?S) (agents sim'))"
      by simp
    from fillOffspring_charges [OF f] obtain calls survivors' children1 where
      c: "newAgents = survivors' @ [] @ children1"
        "length survivors' = length ?S"
        "length children1 = length calls"
        "length calls = initialAgentCount cfg - (length ?S + length ([]::Agent list))"
        "\<forall>c \<in> set calls. snd c \<noteq> Some (fst c)"
        "\<forall>i<length ?S. \<forall>a0 m.
            ?S ! i = a0\<lparr>energy := energy a0 / 2 ^ m\<rparr>
            \<longrightarrow> survivors' ! i = a0\<lparr>energy := energy a0 / 2 ^ chargeCount cfg a0 i calls m\<rparr>"
        "\<forall>j<length calls. agentParentIds (children1 ! j) = callParentIds ?S (calls ! j)"
        "unitOracle rnd \<and> ?S \<noteq> []
            \<longrightarrow> (\<forall>c \<in> set calls. fst c < length ?S \<and> (\<forall>p. snd c = Some p \<longrightarrow> p < length ?S))"
      by blast
    have n: "length calls = initialAgentCount cfg - length ?S"
      using c(4) by simp
    have t: "take (length ?S) (agents sim') = chargedSurvivors cfg ?S calls"
      using a c(1,2) chargedSurvivors_nth [OF c(2) c(6)] by simp
    have p: "\<forall>j<length calls.
        agentParentIds (agents sim' ! (length ?S + j)) = callParentIds ?S (calls ! j)"
      using a c(1,2,7) by (simp add: nth_append)
    have u: "unitOracle rnd
        \<longrightarrow> (\<forall>c \<in> set calls. fst c < length ?S \<and> (\<forall>p. snd c = Some p \<longrightarrow> p < length ?S))"
      using c(8) sne by blast
    from size halved n c(5) u t p show ?thesis
      by blast
  qed
  have six: "startNewGeneration cfg rnd k sim \<noteq> None" if "partnerOracle rnd (length ?S)"
  proof -
    from fillOffspring_returns [OF that] obtain r where
      "fillOffspring cfg (simGeneration sim + 1) rnd k ?S []
          (lineageAdvanceGeneration (lineageTracker sim))
          (speciesAdvanceGeneration (speciesManager sim)) = Some r"
      by blast
    then show ?thesis
      using assms(1)
      by (auto simp: startNewGeneration_def Let_def split: option.splits sum.splits prod.splits)
  qed
  from one two three four five six show ?thesis
    by blast
qed

lemma example_survivors:
  "selectSurvivors (agents exampleSimulation) = [rankedAgent 2 80 9]"
proof -
  have c: "survivorCount 3 = 1"
    by (simp add: survivorCount_div)
  have l: "length (agents exampleSimulation) = 3"
    by (simp add: exampleSimulation_def)
  have s: "sortedAgents (agents exampleSimulation) =
      [rankedAgent 2 80 9, rankedAgent 1 50 3, rankedAgent 3 60 1]"
    by (simp add: sortedAgents_def exampleSimulation_def rankedAgent_def)
  show ?thesis
    unfolding selectSurvivors_def l c s by simp
qed

lemma example_reproduce:
  "reproduce smallConfig 2 (\<lambda>_. 9/10) k [rankedAgent 2 e 9] 0 None =
     Inr (exampleChild 0\<lparr>speciesRef := None\<rparr>, [rankedAgent 2 (e / 2) 9], k + 6)"
  by (simp add: reproduce_def reproduceGenome_def mutate_def Genome_copy_def newGenome_def
      newAgent_def Genome_createNetwork_def newNeuralNetwork_def smallConfig_def config_def
      rankedAgent_def restingAgent_def exampleChild_def addVectors_def createVector_def Let_def)

lemma example_choice:
  "randomIndex (\<lambda>_. 9/10) k (length [rankedAgent 2 e 9]) = 0"
  "choosePartner (\<lambda>_. 9/10) (k + 1) (length [rankedAgent 2 e 9]) 0 = Some (None, k + 2)"
  by (simp_all add: randomIndex_def choosePartner_def)

lemma example_birth:
  "\<exists>lt1. registerBirth lt
      (case None :: nat option of
         Some p \<Rightarrow> [agentId ([rankedAgent 2 e 9] ! 0), agentId ([rankedAgent 2 e 9] ! p)]
       | None \<Rightarrow> [agentId ([rankedAgent 2 e 9] ! 0)]) 0 = (nextAgentId lt, lt1) \<and>
     nextAgentId lt1 = nextAgentId lt + 1"
  by (simp add: registerBirth_def Let_def)

lemma example_child_id:
  "exampleChild 0\<lparr>speciesRef := None\<rparr>\<lparr>agentId := i, speciesRef := Some 0\<rparr> = exampleChild i"
  "genome (exampleChild 0\<lparr>speciesRef := None\<rparr>) = newGenome [1, 1, 1, 1]"
  by (simp_all add: exampleChild_def)

lemma example_species:
  "assignSpecies (speciesAdvanceGeneration newSpeciesManager) (\<lambda>_. 9/10) k (newGenome [1, 1, 1, 1]) 4
     = Inr (0, \<lparr>species = [speciesOf 1 [1, 1, 1, 1] [4]\<lparr>hue := 324, creationGeneration := 2,
                                 lastImprovedGeneration := 2\<rparr>],
                nextSpeciesId = 2, speciesGeneration = 2\<rparr>, k + 1)"
  "assignSpecies \<lparr>species = [speciesOf 1 [1, 1, 1, 1] [4]\<lparr>hue := 324, creationGeneration := 2,
                                 lastImprovedGeneration := 2\<rparr>],
                nextSpeciesId = 2, speciesGeneration = 2\<rparr> (\<lambda>_. 9/10) k (newGenome [1, 1, 1, 1]) 5
     = Inr (0, \<lparr>species = [speciesOf 1 [1, 1, 1, 1] [4, 5]\<lparr>hue := 324, creationGeneration := 2,
                                 lastImprovedGeneration := 2\<rparr>],
                nextSpeciesId = 2, speciesGeneration = 2\<rparr>, k)"
  by (simp_all add: assignSpecies_def speciesAdvanceGeneration_def newSpeciesManager_def
      newSpecies_def Genome_copy_def newGenome_def randomIndex_def speciesOf_def
      geneticDistance_def distanceThreshold_def addMember_def)

lemma example_run:
  "\<exists>sim' k'. startNewGeneration smallConfig (\<lambda>_. 9/10) 0 exampleSimulation = Some (Inr (sim', k')) \<and>
     agents sim' = [rankedAgent 2 20 9, exampleChild 4, exampleChild 5]"
proof -
  let ?rnd = "\<lambda>_::nat. 9/10 :: real"
  let ?lt = "lineageAdvanceGeneration (lineageTracker exampleSimulation)"
  let ?sm = "speciesAdvanceGeneration newSpeciesManager"
  let ?sm1 = "\<lparr>species = [speciesOf 1 [1, 1, 1, 1] [4]\<lparr>hue := 324, creationGeneration := 2,
                                 lastImprovedGeneration := 2\<rparr>],
                nextSpeciesId = 2, speciesGeneration = 2\<rparr>"
  let ?sm2 = "\<lparr>species = [speciesOf 1 [1, 1, 1, 1] [4, 5]\<lparr>hue := 324, creationGeneration := 2,
                                 lastImprovedGeneration := 2\<rparr>],
                nextSpeciesId = 2, speciesGeneration = 2\<rparr>"
  have ag: "agents exampleSimulation \<noteq> []"
    by (simp add: exampleSimulation_def)
  have cnt: "initialAgentCount smallConfig = 3"
    by (simp add: smallConfig_def)
  have n4: "nextAgentId ?lt = 4"
    by (simp add: lineageAdvanceGeneration_def exampleSimulation_def newLineageTracker_def)
  from example_birth [of ?lt 40] obtain lt1 where
    b1: "registerBirth ?lt
      (case None :: nat option of
         Some p \<Rightarrow> [agentId ([rankedAgent 2 40 9] ! 0), agentId ([rankedAgent 2 40 9] ! p)]
       | None \<Rightarrow> [agentId ([rankedAgent 2 40 9] ! 0)]) 0 = (4, lt1)"
    and n5: "nextAgentId lt1 = 5"
    unfolding n4 by auto
  from example_birth [of lt1 20] obtain lt2 where
    b2: "registerBirth lt1
      (case None :: nat option of
         Some p \<Rightarrow> [agentId ([rankedAgent 2 20 9] ! 0), agentId ([rankedAgent 2 20 9] ! p)]
       | None \<Rightarrow> [agentId ([rankedAgent 2 20 9] ! 0)]) 0 = (5, lt2)"
    unfolding n5 by auto
  have "fillOffspring smallConfig 2 ?rnd 0 [rankedAgent 2 80 9] [] ?lt ?sm
      = fillOffspring smallConfig 2 ?rnd 9 [rankedAgent 2 40 9]
          ([] @ [exampleChild 0\<lparr>speciesRef := None\<rparr>\<lparr>agentId := 4, speciesRef := Some 0\<rparr>]) lt1 ?sm1"
  proof (rule fillOffspring_step)
    show "length [rankedAgent 2 80 9] + length [] < initialAgentCount smallConfig"
      by (simp add: cnt)
    show "choosePartner ?rnd (0 + 1) (length [rankedAgent 2 80 9])
            (randomIndex ?rnd 0 (length [rankedAgent 2 80 9])) = Some (None, 2)"
      using example_choice [of 0 80] by simp
    show "reproduce smallConfig 2 ?rnd 2 [rankedAgent 2 80 9]
            (randomIndex ?rnd 0 (length [rankedAgent 2 80 9])) None
          = Inr (exampleChild 0\<lparr>speciesRef := None\<rparr>, [rankedAgent 2 40 9], 8)"
      using example_choice(1) [of 0 80] example_reproduce [of 2 80] by simp
    show "registerBirth ?lt
           (case None :: nat option of
              Some p \<Rightarrow> [agentId ([rankedAgent 2 40 9] ! randomIndex ?rnd 0 (length [rankedAgent 2 80 9])),
                         agentId ([rankedAgent 2 40 9] ! p)]
            | None \<Rightarrow> [agentId ([rankedAgent 2 40 9] ! randomIndex ?rnd 0 (length [rankedAgent 2 80 9]))]) 0 = (4, lt1)"
      using example_choice(1) [of 0 80] b1 by simp
    show "assignSpecies ?sm ?rnd 8 (genome (exampleChild 0\<lparr>speciesRef := None\<rparr>)) 4 = Inr (0, ?sm1, 9)"
      using example_species(1) [of 8] by (simp add: example_child_id)
  qed
  also have "\<dots> = fillOffspring smallConfig 2 ?rnd 17 [rankedAgent 2 20 9]
          (([] @ [exampleChild 0\<lparr>speciesRef := None\<rparr>\<lparr>agentId := 4, speciesRef := Some 0\<rparr>])
           @ [exampleChild 0\<lparr>speciesRef := None\<rparr>\<lparr>agentId := 5, speciesRef := Some 0\<rparr>]) lt2 ?sm2"
  proof (rule fillOffspring_step)
    show "length [rankedAgent 2 40 9]
          + length ([] @ [exampleChild 0\<lparr>speciesRef := None\<rparr>\<lparr>agentId := 4, speciesRef := Some 0\<rparr>])
          < initialAgentCount smallConfig"
      by (simp add: cnt)
    show "choosePartner ?rnd (9 + 1) (length [rankedAgent 2 40 9])
            (randomIndex ?rnd 9 (length [rankedAgent 2 40 9])) = Some (None, 11)"
      using example_choice [of 9 40] by simp
    show "reproduce smallConfig 2 ?rnd 11 [rankedAgent 2 40 9]
            (randomIndex ?rnd 9 (length [rankedAgent 2 40 9])) None
          = Inr (exampleChild 0\<lparr>speciesRef := None\<rparr>, [rankedAgent 2 20 9], 17)"
      using example_choice(1) [of 9 40] example_reproduce [of 11 40] by simp
    show "registerBirth lt1
           (case None :: nat option of
              Some p \<Rightarrow> [agentId ([rankedAgent 2 20 9] ! randomIndex ?rnd 9 (length [rankedAgent 2 40 9])),
                         agentId ([rankedAgent 2 20 9] ! p)]
            | None \<Rightarrow> [agentId ([rankedAgent 2 20 9] ! randomIndex ?rnd 9 (length [rankedAgent 2 40 9]))]) 0 = (5, lt2)"
      using example_choice(1) [of 9 40] b2 by simp
    show "assignSpecies ?sm1 ?rnd 17 (genome (exampleChild 0\<lparr>speciesRef := None\<rparr>)) 5 = Inr (0, ?sm2, 17)"
      using example_species(2) [of 17] by (simp add: example_child_id)
  qed
  also have "\<dots> = Some (Inr ([rankedAgent 2 20 9, exampleChild 4, exampleChild 5], lt2, ?sm2, 17))"
    by (simp add: fillOffspring_done cnt example_child_id)
  finally have "fillOffspring smallConfig 2 ?rnd 0 [rankedAgent 2 80 9] [] ?lt ?sm
      = Some (Inr ([rankedAgent 2 20 9, exampleChild 4, exampleChild 5], lt2, ?sm2, 17))" .
  moreover have "simGeneration exampleSimulation + 1 = 2" "speciesManager exampleSimulation = newSpeciesManager"
    by (simp_all add: exampleSimulation_def)
  ultimately have "fillOffspring smallConfig (simGeneration exampleSimulation + 1) ?rnd 0
      (selectSurvivors (agents exampleSimulation)) [] ?lt
      (speciesAdvanceGeneration (speciesManager exampleSimulation))
      = Some (Inr ([rankedAgent 2 20 9, exampleChild 4, exampleChild 5], lt2, ?sm2, 17))"
    by (simp only: example_survivors)
  with startNewGeneration_filled [OF ag, of smallConfig ?rnd 0]
  show ?thesis
    by auto
qed

lemma example_agents:
  "resultAgents (startNewGeneration smallConfig (\<lambda>_. 9/10) 0 exampleSimulation) =
     [rankedAgent 2 20 9, exampleChild 4, exampleChild 5]"
  using example_run by (auto simp: resultAgents_def)

text \<open>
  Three agents and an initial population size of three: the one survivor has energy 80
  before the transition and is parent of both children, so it is in the new roster with
  energy 20; the agent with energy 80 is not in the new roster.
\<close>

theorem generation_sizing_counterexample:
  "map energy (selectSurvivors (agents exampleSimulation)) = [80] \<and>
   map energy (resultAgents (startNewGeneration smallConfig (\<lambda>_. 9/10) 0 exampleSimulation)) = [20, 50, 50] \<and>
   rankedAgent 2 80 9 \<in> set (selectSurvivors (agents exampleSimulation)) \<and>
   rankedAgent 2 80 9 \<notin> set (resultAgents (startNewGeneration smallConfig (\<lambda>_. 9/10) 0 exampleSimulation))"
  by (simp add: example_survivors example_agents rankedAgent_def restingAgent_def exampleChild_def)

theorem generation_sizing_witness:
  "agents exampleSimulation \<noteq> [] \<and>
   length (agents exampleSimulation) \<le> initialAgentCount smallConfig \<and>
   unitOracle (\<lambda>_. 9/10) \<and>
   map agentId (selectSurvivors (agents exampleSimulation)) = [2] \<and>
   map agentId (resultAgents (startNewGeneration smallConfig (\<lambda>_. 9/10) 0 exampleSimulation)) = [2, 4, 5] \<and>
   length (resultAgents (startNewGeneration smallConfig (\<lambda>_. 9/10) 0 exampleSimulation))
     = initialAgentCount smallConfig \<and>
   take 1 (resultAgents (startNewGeneration smallConfig (\<lambda>_. 9/10) 0 exampleSimulation))
     = [rankedAgent 2 20 9] \<and>
   partnerOracle (\<lambda>_. 9/10) (length (selectSurvivors (agents exampleSimulation))) \<and>
   startNewGeneration smallConfig (\<lambda>_. 9/10) 0 exampleSimulation \<noteq> None"
proof -
  have h: "agents exampleSimulation \<noteq> []" "length (agents exampleSimulation) \<le> initialAgentCount smallConfig"
    by (simp_all add: exampleSimulation_def smallConfig_def)
  have uo: "unitOracle (\<lambda>_. 9/10)"
    by (simp add: unitOracle_def)
  have po: "partnerOracle (\<lambda>_. 9/10) (length (selectSurvivors (agents exampleSimulation)))"
    by (simp add: partnerOracle_def example_survivors)
  note inst = generation_sizing [OF h, of "\<lambda>_. 9/10" 0]
  from inst po have ret: "startNewGeneration smallConfig (\<lambda>_. 9/10) 0 exampleSimulation \<noteq> None"
    by blast
  have ids: "map agentId (selectSurvivors (agents exampleSimulation)) = [2]"
    "map agentId (resultAgents (startNewGeneration smallConfig (\<lambda>_. 9/10) 0 exampleSimulation)) = [2, 4, 5]"
    by (simp_all add: example_survivors example_agents rankedAgent_def exampleChild_def)
  from example_run obtain sim' k' where
    run: "startNewGeneration smallConfig (\<lambda>_. 9/10) 0 exampleSimulation = Some (Inr (sim', k'))"
    by blast
  then have res: "resultAgents (startNewGeneration smallConfig (\<lambda>_. 9/10) 0 exampleSimulation) = agents sim'"
    by (simp add: resultAgents_def)
  from inst run have size: "length (agents sim') = initialAgentCount smallConfig"
    by blast
  from inst run uo obtain calls where
    c: "length calls = initialAgentCount smallConfig - length (selectSurvivors (agents exampleSimulation))"
      "\<forall>c \<in> set calls. fst c < length (selectSurvivors (agents exampleSimulation))"
      "take (length (selectSurvivors (agents exampleSimulation))) (agents sim') =
         chargedSurvivors smallConfig (selectSurvivors (agents exampleSimulation)) calls"
    by blast
  from c(1) have two: "length calls = 2"
    by (simp add: example_survivors smallConfig_def)
  from c(2) have "\<forall>c \<in> set calls. fst c = 0"
    by (simp add: example_survivors)
  from chargeCount_parent [OF this, of smallConfig "rankedAgent 2 80 9" 0] two
  have "chargeCount smallConfig (rankedAgent 2 80 9) 0 calls 0 = 2"
    by simp
  then have "chargedSurvivors smallConfig [rankedAgent 2 80 9] calls = [rankedAgent 2 20 9]"
    by (simp add: chargedSurvivors_def rankedAgent_def restingAgent_def)
  with c(3) have front: "take 1 (agents sim') = [rankedAgent 2 20 9]"
    by (simp add: example_survivors)
  from h uo po ret ids size front res show ?thesis
    by simp
qed

section \<open>The genetic operators leave their arguments alone\<close>

lemma extends_refl: "extends h h"
  by (simp add: extends_def)

lemma extends_trans: "extends h h1 \<Longrightarrow> extends h1 h2 \<Longrightarrow> extends h h2"
  by (simp add: extends_def)

lemma wellFormed_free:
  assumes "wellFormed h"
  shows "arrayAt h (nextFree h) = None" "genomeAt h (nextFree h) = None"
proof -
  show "arrayAt h (nextFree h) = None"
  proof (cases "arrayAt h (nextFree h)")
    case (Some ws)
    with assms have "nextFree h < nextFree h" unfolding wellFormed_def by blast
    then show ?thesis by simp
  qed simp
  show "genomeAt h (nextFree h) = None"
  proof (cases "genomeAt h (nextFree h)")
    case (Some obj)
    with assms have "nextFree h < nextFree h" unfolding wellFormed_def by blast
    then show ?thesis by simp
  qed simp
qed

lemma allocArray_frame:
  assumes "wellFormed h" "allocArray h ws = (a, h1)"
  shows "extends h h1" "wellFormed h1" "a = nextFree h" "nextFree h1 = nextFree h + 1"
    "arrayAt h1 a = Some ws" "genomeAt h1 = genomeAt h"
proof -
  from assms(2) have h1: "h1 = h\<lparr>arrayAt := (arrayAt h)(nextFree h \<mapsto> ws), nextFree := nextFree h + 1\<rparr>"
    and a: "a = nextFree h"
    by (auto simp: allocArray_def)
  note free = wellFormed_free [OF assms(1)]
  show "a = nextFree h" by (rule a)
  show "nextFree h1 = nextFree h + 1" "arrayAt h1 a = Some ws" "genomeAt h1 = genomeAt h"
    by (simp_all add: h1 a)
  show "extends h h1"
    unfolding extends_def h1 using free(1) by auto
  show "wellFormed h1"
    using assms(1) unfolding wellFormed_def h1
    by (auto simp: less_Suc_eq)
qed

lemma allocGenome_frame:
  assumes "wellFormed h" "arrayAt h a \<noteq> None" "allocGenome h a r = (g, h1)"
  shows "extends h h1" "wellFormed h1" "g = nextFree h" "nextFree h1 = nextFree h + 1"
    "genomeAt h1 g = Some \<lparr>weightsAt = a, rateOf = r\<rparr>" "arrayAt h1 = arrayAt h"
proof -
  from assms(3) have h1: "h1 = h\<lparr>genomeAt := (genomeAt h)(nextFree h \<mapsto> \<lparr>weightsAt = a, rateOf = r\<rparr>),
                                 nextFree := nextFree h + 1\<rparr>"
    and g: "g = nextFree h"
    by (auto simp: allocGenome_def)
  note free = wellFormed_free [OF assms(1)]
  show "g = nextFree h" by (rule g)
  show "nextFree h1 = nextFree h + 1" "genomeAt h1 g = Some \<lparr>weightsAt = a, rateOf = r\<rparr>"
    "arrayAt h1 = arrayAt h"
    by (simp_all add: h1 g)
  show "extends h h1"
    unfolding extends_def h1 using free(2) by auto
  show "wellFormed h1"
    using assms(1,2) unfolding wellFormed_def h1
    by (auto simp: less_Suc_eq)
qed

lemma writeArray_above:
  assumes "above h0 h" "nextFree h0 \<le> a"
  shows "above h0 (writeArray h a i v)"
  using assms
  by (fastforce simp: above_def extends_def wellFormed_def writeArray_def)

lemma setWeights_above:
  assumes "above h0 h" "nextFree h0 \<le> g"
  shows "above h0 (setWeights h g a)"
  using assms
  by (fastforce simp: above_def extends_def wellFormed_def setWeights_def)

lemma setRate_above:
  assumes "above h0 h" "nextFree h0 \<le> g"
  shows "above h0 (setRate h g r)"
  using assms
  by (fastforce simp: above_def extends_def wellFormed_def setRate_def)

lemma heapMutateLoop_above:
  assumes "nextFree h0 \<le> a"
  shows "above h0 h \<Longrightarrow> above h0 (fst (heapMutateLoop rnd k rate amount a idxs h))"
  by (induction idxs arbitrary: h k) (simp_all add: writeArray_above [OF _ assms])

lemma heapAdaptLoop_above:
  assumes "nextFree h0 \<le> a"
  shows "above h0 h \<Longrightarrow> heapAdaptLoop rnd k rate a idxs h = Some (h', k') \<Longrightarrow> above h0 h'"
proof (induction idxs arbitrary: h k)
  case Nil
  then show ?case by simp
next
  case (Cons i rest)
  show ?case
  proof (cases "rnd k < rate")
    case True
    with Cons.prems(2) obtain z k1 where
      z: "randomNormal rnd (k + 1) = Some (z, k1)"
      and l: "heapAdaptLoop rnd k1 rate a rest (writeArray h a i (readArray h a ! i + z * (2/10))) = Some (h', k')"
      by (auto split: option.splits)
    from Cons.IH [OF writeArray_above [OF Cons.prems(1) assms] l] show ?thesis .
  next
    case False
    with Cons.prems(2) have "heapAdaptLoop rnd (k + 1) rate a rest h = Some (h', k')"
      by simp
    from Cons.IH [OF Cons.prems(1) this] show ?thesis .
  qed
qed

lemma heapOverwrite_above:
  assumes "nextFree h0 \<le> a"
  shows "above h0 h \<Longrightarrow> above h0 (heapOverwrite a src idxs h)"
  by (induction idxs arbitrary: h) (simp_all add: writeArray_above [OF _ assms])

lemma heapApplyPoints_above:
  assumes "nextFree h0 \<le> a"
  shows "above h0 h \<Longrightarrow> above h0 (heapApplyPoints points cur a w1 w2 len h)"
  by (induction points arbitrary: h cur) (simp_all add: heapOverwrite_above [OF assms])

lemma heapCopy_frame:
  assumes "wellFormed h" "heapCopy h g = (newG, h1)"
  shows "above h h1" "nextFree h \<le> newG" "wellFormed h1"
    "\<exists>a. genomeAt h1 newG = Some \<lparr>weightsAt = a, rateOf = rateAt h g\<rparr> \<and> nextFree h \<le> a \<and>
         arrayAt h1 a = Some (weightsOf h g)"
proof -
  obtain a ha where a: "allocArray h (weightsOf h g) = (a, ha)"
    by (cases "allocArray h (weightsOf h g)")
  with assms(2) have g: "allocGenome ha a (rateAt h g) = (newG, h1)"
    by (simp add: heapCopy_def)
  note fa = allocArray_frame [OF assms(1) a]
  have "arrayAt ha a \<noteq> None" using fa(5) by simp
  note fg = allocGenome_frame [OF fa(2) this g]
  show "above h h1"
    using extends_trans [OF fa(1) fg(1)] assms(1) by (simp add: above_def)
  show "nextFree h \<le> newG"
    using fg(3) fa(4) by simp
  show "wellFormed h1" by (rule fg(2))
  show "\<exists>a. genomeAt h1 newG = Some \<lparr>weightsAt = a, rateOf = rateAt h g\<rparr> \<and> nextFree h \<le> a \<and>
         arrayAt h1 a = Some (weightsOf h g)"
    using fg(5,6) fa(3,5) by auto
qed

lemma heapMutate_frame:
  assumes "wellFormed h" "heapMutate rnd k h g rate amount = (newG, h', k')"
  shows "above h h'" "nextFree h \<le> newG"
proof -
  obtain g1 h1 where c: "heapCopy h g = (g1, h1)"
    by (cases "heapCopy h g")
  note f = heapCopy_frame [OF assms(1) c]
  from f(4) obtain a where a: "genomeAt h1 g1 = Some \<lparr>weightsAt = a, rateOf = rateAt h g\<rparr>" "nextFree h \<le> a"
    by blast
  from assms(2) c a(1) have "newG = g1"
    and "h' = fst (heapMutateLoop rnd k rate amount a [0..<length (readArray h1 a)] h1)"
    by (auto simp: heapMutate_def Let_def split: prod.splits)
  then show "above h h'" "nextFree h \<le> newG"
    using heapMutateLoop_above [OF a(2) f(1)] f(2) by simp_all
qed

lemma heapMutateSelfAdaptive_frame:
  assumes "wellFormed h" "heapMutateSelfAdaptive rnd k h g = Some (newG, h', k')"
  shows "above h h'" "nextFree h \<le> newG"
proof -
  obtain g1 h1 where c: "heapCopy h g = (g1, h1)"
    by (cases "heapCopy h g")
  note f = heapCopy_frame [OF assms(1) c]
  from f(4) obtain a where a: "genomeAt h1 g1 = Some \<lparr>weightsAt = a, rateOf = rateAt h g\<rparr>" "nextFree h \<le> a"
    by blast
  obtain rate k1 where r: "adaptRate rnd k (rateAt h1 g) = (rate, k1)"
    by (cases "adaptRate rnd k (rateAt h1 g)")
  have "newG = g1 \<and> above h h'"
  proof (cases "rnd k < 1/10")
    case True
    have h2: "above h (setRate h1 g1 rate)"
      using f(1,2) by (rule setRate_above)
    have a2: "genomeAt (setRate h1 g1 rate) g1 = Some \<lparr>weightsAt = a, rateOf = rate\<rparr>"
      using a(1) by (simp add: setRate_def)
    from assms(2) c r True a2 have "newG = g1"
      and "heapAdaptLoop rnd k1 (rateAt (setRate h1 g1 rate) g1) a
             [0..<length (readArray (setRate h1 g1 rate) a)] (setRate h1 g1 rate) = Some (h', k')"
      by (auto simp: heapMutateSelfAdaptive_def Let_def split: option.splits)
    then show ?thesis
      using heapAdaptLoop_above [OF a(2) h2] by simp
  next
    case False
    from assms(2) c r False a(1) have "newG = g1"
      and "heapAdaptLoop rnd k1 (rateAt h1 g1) a [0..<length (readArray h1 a)] h1 = Some (h', k')"
      by (auto simp: heapMutateSelfAdaptive_def Let_def split: option.splits)
    then show ?thesis
      using heapAdaptLoop_above [OF a(2) f(1)] by simp
  qed
  then show "above h h'" "nextFree h \<le> newG"
    using f(2) by simp_all
qed

lemma heapNewGenome_frame:
  assumes "wellFormed h" "heapNewGenome h = (child, h1)"
  shows "above h h1" "nextFree h \<le> child" "wellFormed h1" "nextFree h \<le> nextFree h1"
proof -
  obtain a ha where a: "allocArray h [] = (a, ha)"
    by (cases "allocArray h []")
  with assms(2) have g: "allocGenome ha a (5/100) = (child, h1)"
    by (simp add: heapNewGenome_def)
  note fa = allocArray_frame [OF assms(1) a]
  have "arrayAt ha a \<noteq> None" using fa(5) by simp
  note fg = allocGenome_frame [OF fa(2) this g]
  show "above h h1"
    using extends_trans [OF fa(1) fg(1)] assms(1) by (simp add: above_def)
  show "nextFree h \<le> child" "nextFree h \<le> nextFree h1"
    using fg(3,4) fa(4) by simp_all
  show "wellFormed h1" by (rule fg(2))
qed

lemma above_alloc:
  assumes "above h0 h1" "wellFormed h1" "nextFree h0 \<le> nextFree h1" "allocArray h1 ws = (a, h2)"
  shows "above h0 h2" "nextFree h0 \<le> a"
proof -
  note fa = allocArray_frame [OF assms(2,4)]
  show "above h0 h2"
    using assms(1) extends_trans [OF _ fa(1)] by (simp add: above_def)
  show "nextFree h0 \<le> a"
    using fa(3) assms(3) by simp
qed

lemma heapCrossover_frame:
  assumes "wellFormed h" "heapCrossover rnd k h p1 p2 ty = Inr (child, h', k')"
  shows "above h h'" "nextFree h \<le> child"
proof -
  obtain c h1 where n: "heapNewGenome h = (c, h1)"
    by (cases "heapNewGenome h")
  note f = heapNewGenome_frame [OF assms(1) n]
  have len: "length (weightsOf h1 p1) = length (weightsOf h1 p2)"
    using assms(2) n by (auto simp: heapCrossover_def split: if_splits)
  have "child = c \<and> above h h'"
  proof (cases ty)
    case UNIFORM
    obtain a h2 where a: "allocArray h1
        (map (\<lambda>i. if rnd (k + i) < 1/2 then weightsOf h1 p1 ! i else weightsOf h1 p2 ! i)
           [0..<length (weightsOf h1 p1)]) = (a, h2)"
      by (metis surj_pair)
    from assms(2) n len UNIFORM a have "child = c" "h' = setWeights h2 c a"
      by (auto simp: heapCrossover_def Let_def)
    with setWeights_above [OF above_alloc(1) [OF f(1,3,4) a] f(2)] show ?thesis
      by simp
  next
    case SINGLE_POINT
    obtain a h2 where a: "allocArray h1
        (take (randomIndex rnd k (length (weightsOf h1 p1))) (weightsOf h1 p1)
         @ drop (randomIndex rnd k (length (weightsOf h1 p1))) (weightsOf h1 p2)) = (a, h2)"
      by (metis surj_pair)
    from assms(2) n len SINGLE_POINT a have "child = c" "h' = setWeights h2 c a"
      by (auto simp: heapCrossover_def Let_def)
    with setWeights_above [OF above_alloc(1) [OF f(1,3,4) a] f(2)] show ?thesis
      by simp
  next
    case MULTI_POINT
    obtain a h2 where a: "allocArray h1 (weightsOf h1 p1) = (a, h2)"
      by (metis surj_pair)
    from assms(2) n len MULTI_POINT a obtain points w1 w2 where "child = c"
      "h' = heapApplyPoints points 2 a w1 w2 (length (weightsOf h1 p1)) (setWeights h2 c a)"
      by (auto simp: heapCrossover_def Let_def)
    with heapApplyPoints_above [OF above_alloc(2) [OF f(1,3,4) a]
        setWeights_above [OF above_alloc(1) [OF f(1,3,4) a] f(2)]]
    show ?thesis
      by simp
  qed
  then show "above h h'" "nextFree h \<le> child"
    using f(2) by simp_all
qed

lemma above_readGenome:
  assumes "above h h'" "genomeAt h p \<noteq> None"
  shows "readGenome h' p = readGenome h p"
proof -
  from assms(2) obtain obj where obj: "genomeAt h p = Some obj" by blast
  with assms(1) obtain ws where ws: "arrayAt h (weightsAt obj) = Some ws"
    unfolding above_def wellFormed_def by blast
  from assms(1) obj ws have "genomeAt h' p = Some obj" "arrayAt h' (weightsAt obj) = Some ws"
    unfolding above_def extends_def by blast+
  with obj ws show ?thesis
    by (simp add: readGenome_def weightsOf_def rateAt_def readArray_def)
qed

text \<open>
  C10. On a well-formed store, a call of the operator-level \<^verbatim>\<open>mutate\<close>, of the
  self-adaptive \<^verbatim>\<open>mutate\<close> or of \<^verbatim>\<open>crossover\<close> that returns leaves every array and
  every genome object of the store before the call as it was: each genome that existed
  has the same weights and the same mutation rate after the call, the argument genomes
  among them. The genome it returns is a new object.
\<close>

theorem operators_keep_inputs:
  assumes "wellFormed h"
  shows "(\<forall>newG h' k'. heapMutate rnd k h g rate amount = (newG, h', k')
            \<longrightarrow> extends h h' \<and> genomeAt h newG = None \<and>
                (\<forall>p. genomeAt h p \<noteq> None \<longrightarrow> readGenome h' p = readGenome h p)) \<and>
         (\<forall>newG h' k'. heapMutateSelfAdaptive rnd k h g = Some (newG, h', k')
            \<longrightarrow> extends h h' \<and> genomeAt h newG = None \<and>
                (\<forall>p. genomeAt h p \<noteq> None \<longrightarrow> readGenome h' p = readGenome h p)) \<and>
         (\<forall>child h' k'. heapCrossover rnd k h parent1 parent2 ty = Inr (child, h', k')
            \<longrightarrow> extends h h' \<and> genomeAt h child = None \<and>
                (\<forall>p. genomeAt h p \<noteq> None \<longrightarrow> readGenome h' p = readGenome h p))"
proof -
  have fresh: "genomeAt h x = None" if "nextFree h \<le> x" for x
  proof (cases "genomeAt h x")
    case (Some obj)
    with assms have "x < nextFree h" unfolding wellFormed_def by blast
    with that show ?thesis by simp
  qed simp
  have kept: "extends h h' \<and> genomeAt h x = None \<and>
      (\<forall>p. genomeAt h p \<noteq> None \<longrightarrow> readGenome h' p = readGenome h p)"
    if "above h h'" "nextFree h \<le> x" for h' x
    using that fresh above_readGenome by (simp add: above_def)
  have m: "extends h h' \<and> genomeAt h newG = None \<and>
      (\<forall>p. genomeAt h p \<noteq> None \<longrightarrow> readGenome h' p = readGenome h p)"
    if "heapMutate rnd k h g rate amount = (newG, h', k')" for newG h' k'
    using kept [OF heapMutate_frame [OF assms that]] .
  have s: "extends h h' \<and> genomeAt h newG = None \<and>
      (\<forall>p. genomeAt h p \<noteq> None \<longrightarrow> readGenome h' p = readGenome h p)"
    if "heapMutateSelfAdaptive rnd k h g = Some (newG, h', k')" for newG h' k'
    using kept [OF heapMutateSelfAdaptive_frame [OF assms that]] .
  have c: "extends h h' \<and> genomeAt h child = None \<and>
      (\<forall>p. genomeAt h p \<noteq> None \<longrightarrow> readGenome h' p = readGenome h p)"
    if "heapCrossover rnd k h parent1 parent2 ty = Inr (child, h', k')" for child h' k'
    using kept [OF heapCrossover_frame [OF assms that]] .
  show ?thesis
  proof (intro conjI)
    show "\<forall>newG h' k'. heapMutate rnd k h g rate amount = (newG, h', k')
            \<longrightarrow> extends h h' \<and> genomeAt h newG = None \<and>
                (\<forall>p. genomeAt h p \<noteq> None \<longrightarrow> readGenome h' p = readGenome h p)"
      using m by blast
    show "\<forall>newG h' k'. heapMutateSelfAdaptive rnd k h g = Some (newG, h', k')
            \<longrightarrow> extends h h' \<and> genomeAt h newG = None \<and>
                (\<forall>p. genomeAt h p \<noteq> None \<longrightarrow> readGenome h' p = readGenome h p)"
      using s by blast
    show "\<forall>child h' k'. heapCrossover rnd k h parent1 parent2 ty = Inr (child, h', k')
            \<longrightarrow> extends h h' \<and> genomeAt h child = None \<and>
                (\<forall>p. genomeAt h p \<noteq> None \<longrightarrow> readGenome h' p = readGenome h p)"
      using c by blast
  qed
qed

lemma exampleHeap_wellFormed: "wellFormed exampleHeap"
  by (auto simp: wellFormed_def exampleHeap_def split: if_splits)

lemma exampleHeap_read:
  "readGenome exampleHeap 2 = newGenome [1, 1, 1, 1, 1]"
  "readGenome exampleHeap 3 = newGenome [0, 0, 0, 0, 0]"
  "genomeAt exampleHeap 2 \<noteq> None" "genomeAt exampleHeap 3 \<noteq> None"
  by (simp_all add: readGenome_def weightsOf_def rateAt_def readArray_def exampleHeap_def newGenome_def)

lemma exampleHeap_mutate:
  "\<exists>h'. heapMutate (\<lambda>_. 0) 0 exampleHeap 2 1 1 = (5, h', 10) \<and>
        readGenome h' 5 = newGenome [0, 0, 0, 0, 0]"
  by (simp add: heapMutate_def heapCopy_def allocArray_def allocGenome_def exampleHeap_def
      weightsOf_def rateAt_def readArray_def writeArray_def readGenome_def newGenome_def
      upt_rec [of 0] upt_rec [of 1] upt_rec [of 2] upt_rec [of 3] upt_rec [of 4] upt_rec [of 5] Let_def)

lemma exampleHeap_crossover:
  "\<exists>h'. heapCrossover (\<lambda>_. 2/5) 0 exampleHeap 2 3 SINGLE_POINT = Inr (5, h', 1) \<and>
        readGenome h' 5 = newGenome [1, 1, 0, 0, 0]"
  by (simp add: heapCrossover_def heapNewGenome_def allocArray_def allocGenome_def exampleHeap_def
      weightsOf_def rateAt_def readArray_def setWeights_def readGenome_def newGenome_def
      randomIndex_def Let_def)

theorem operators_keep_inputs_witness:
  "wellFormed exampleHeap \<and>
   fst (heapMutate (\<lambda>_. 0) 0 exampleHeap 2 1 1) = 5 \<and>
   readGenome (fst (snd (heapMutate (\<lambda>_. 0) 0 exampleHeap 2 1 1))) 5 = newGenome [0, 0, 0, 0, 0] \<and>
   readGenome (fst (snd (heapMutate (\<lambda>_. 0) 0 exampleHeap 2 1 1))) 2 = newGenome [1, 1, 1, 1, 1] \<and>
   readGenome (fst (snd (heapMutate (\<lambda>_. 0) 0 exampleHeap 2 1 1))) 3 = newGenome [0, 0, 0, 0, 0]"
proof -
  from exampleHeap_mutate obtain h' where
    m: "heapMutate (\<lambda>_. 0) 0 exampleHeap 2 1 1 = (5, h', 10)"
    and r: "readGenome h' 5 = newGenome [0, 0, 0, 0, 0]"
    by blast
  from operators_keep_inputs [OF exampleHeap_wellFormed, of "\<lambda>_. 0" 0 2 1 1] m
  have "\<forall>p. genomeAt exampleHeap p \<noteq> None \<longrightarrow> readGenome h' p = readGenome exampleHeap p"
    by blast
  then have "readGenome h' 2 = newGenome [1, 1, 1, 1, 1]" "readGenome h' 3 = newGenome [0, 0, 0, 0, 0]"
    using exampleHeap_read by simp_all
  with m r exampleHeap_wellFormed show ?thesis
    by simp
qed

section \<open>The operators on the store compute what the operators on values compute\<close>

text \<open>
  The store model and the value model of the genetic operators are two readings of the
  same code. On a well-formed store, reading the genome that an operator returns gives
  the genome that the value-level operator computes from the genomes read at the
  arguments, with the same number of random draws.
\<close>

lemma heap_array_update_same:
  "arrayAt h a = Some ws \<Longrightarrow> h\<lparr>arrayAt := (arrayAt h)(a \<mapsto> ws)\<rparr> = h"
  by (simp add: fun_upd_idem)

lemma heapMutateLoop_refines:
  assumes "arrayAt h a = Some ws" "i \<le> length ws"
  shows "heapMutateLoop rnd k rate amount a [i..<length ws] h =
           (h\<lparr>arrayAt := (arrayAt h)(a \<mapsto> take i ws @ fst (mutateWeights rnd k rate amount (drop i ws)))\<rparr>,
            snd (mutateWeights rnd k rate amount (drop i ws)))"
  using assms
proof (induction "length ws - i" arbitrary: i h ws k)
  case 0
  then have e: "i = length ws" by simp
  have "h\<lparr>arrayAt := (arrayAt h)(a \<mapsto> ws)\<rparr> = h"
    using "0.prems"(1) by (rule heap_array_update_same)
  then show ?case
    using e by (simp add: fun_upd_def)
next
  case (Suc d)
  then have i: "i < length ws" by simp
  have upt: "[i..<length ws] = i # [Suc i..<length ws]"
    using i by (simp add: upt_conv_Cons)
  have drp: "drop i ws = ws ! i # drop (Suc i) ws"
    using i by (simp add: Cons_nth_drop_Suc)
  show ?case
  proof (cases "rnd k < rate")
    case True
    let ?v = "ws ! i + (rnd (k + 1) * 2 - 1) * amount"
    let ?h1 = "writeArray h a i ?v"
    have r: "readArray h a = ws"
      using Suc.prems(1) by (simp add: readArray_def)
    have a1: "arrayAt ?h1 a = Some (ws[i := ?v])"
      by (simp add: writeArray_def r)
    have d: "d = length (ws[i := ?v]) - Suc i"
      using Suc.hyps(2) by simp
    have le: "Suc i \<le> length (ws[i := ?v])"
      using i by simp
    from Suc.hyps(1) [OF d a1 le, of "k + 2"]
    have "heapMutateLoop rnd (k + 2) rate amount a [Suc i..<length ws] ?h1 =
        (?h1\<lparr>arrayAt := (arrayAt ?h1)(a \<mapsto> take (Suc i) (ws[i := ?v])
              @ fst (mutateWeights rnd (k + 2) rate amount (drop (Suc i) (ws[i := ?v]))))\<rparr>,
         snd (mutateWeights rnd (k + 2) rate amount (drop (Suc i) (ws[i := ?v]))))"
      by simp
    moreover have "take (Suc i) (ws[i := ?v]) = take i ws @ [?v]"
      using i by (simp add: take_Suc_conv_app_nth)
    moreover have "drop (Suc i) (ws[i := ?v]) = drop (Suc i) ws"
      by simp
    moreover have "?h1\<lparr>arrayAt := (arrayAt ?h1)(a \<mapsto> X)\<rparr> = h\<lparr>arrayAt := (arrayAt h)(a \<mapsto> X)\<rparr>" for X
      by (simp add: writeArray_def)
    ultimately show ?thesis
      using True r by (simp add: upt drp split: prod.splits)
  next
    case False
    have d: "d = length ws - Suc i"
      using Suc.hyps(2) by simp
    have le: "Suc i \<le> length ws"
      using i by simp
    from Suc.hyps(1) [OF d Suc.prems(1) le, of "k + 1"] False
    show ?thesis
      by (simp add: upt drp take_Suc_conv_app_nth [OF i] split: prod.splits)
  qed
qed

lemma heapCopy_result:
  assumes "wellFormed h" "heapCopy h g = (newG, h1)"
  shows "\<exists>a. a = nextFree h \<and> newG = nextFree h + 1 \<and>
           h1 = h\<lparr>arrayAt := (arrayAt h)(a \<mapsto> weightsOf h g),
                  genomeAt := (genomeAt h)(newG \<mapsto> \<lparr>weightsAt = a, rateOf = rateAt h g\<rparr>),
                  nextFree := nextFree h + 2\<rparr>"
  using assms(2)
  by (auto simp: heapCopy_def allocArray_def allocGenome_def Let_def)

lemma heapMutate_refines:
  assumes "wellFormed h" "heapMutate rnd k h g rate amount = (newG, h', k')"
  shows "(readGenome h' newG, k') = mutate rnd k (readGenome h g) rate amount"
proof -
  obtain g1 h1 where c: "heapCopy h g = (g1, h1)"
    by (cases "heapCopy h g")
  from heapCopy_result [OF assms(1) c] have
    g1: "g1 = nextFree h + 1"
    and h1: "h1 = h\<lparr>arrayAt := (arrayAt h)(nextFree h \<mapsto> weightsOf h g),
                  genomeAt := (genomeAt h)(g1 \<mapsto> \<lparr>weightsAt = nextFree h, rateOf = rateAt h g\<rparr>),
                  nextFree := nextFree h + 2\<rparr>"
    by auto
  let ?a = "nextFree h"
  let ?ws = "weightsOf h g"
  have a: "arrayAt h1 ?a = Some ?ws" "genomeAt h1 g1 = Some \<lparr>weightsAt = ?a, rateOf = rateAt h g\<rparr>"
    by (simp_all add: h1)
  have ra: "readArray h1 ?a = ?ws"
    by (simp add: readArray_def a)
  from heapMutateLoop_refines [OF a(1), of 0 rnd k rate amount]
  have l: "heapMutateLoop rnd k rate amount ?a [0..<length ?ws] h1 =
      (h1\<lparr>arrayAt := (arrayAt h1)(?a \<mapsto> fst (mutateWeights rnd k rate amount ?ws))\<rparr>,
       snd (mutateWeights rnd k rate amount ?ws))"
    by simp
  from assms(2) c a(2) ra l have "newG = g1" "k' = snd (mutateWeights rnd k rate amount ?ws)"
    "h' = h1\<lparr>arrayAt := (arrayAt h1)(?a \<mapsto> fst (mutateWeights rnd k rate amount ?ws))\<rparr>"
    by (auto simp: heapMutate_def Let_def)
  then show ?thesis
    using a(2)
    by (simp add: mutate_def readGenome_def weightsOf_def rateAt_def readArray_def Genome_copy_def
        Let_def split: prod.splits)
qed

lemma heapAdaptLoop_refines:
  assumes "arrayAt h a = Some ws" "i \<le> length ws"
  shows "heapAdaptLoop rnd k rate a [i..<length ws] h =
           map_option (\<lambda>(ws', k'). (h\<lparr>arrayAt := (arrayAt h)(a \<mapsto> take i ws @ ws')\<rparr>, k'))
             (adaptWeights rnd k rate (drop i ws))"
  using assms
proof (induction "length ws - i" arbitrary: i h ws k)
  case 0
  then have e: "i = length ws" by simp
  have l: "heapAdaptLoop rnd k rate a [i..<length ws] h = Some (h, k)"
    using e by simp
  have w: "adaptWeights rnd k rate (drop i ws) = Some ([], k)"
    using e by simp
  have t: "take i ws @ [] = ws"
    using e by simp
  have hh: "h\<lparr>arrayAt := (arrayAt h)(a \<mapsto> ws)\<rparr> = h"
    using "0.prems"(1) by (rule heap_array_update_same)
  show ?case
    by (simp only: l w option.map prod.case t hh)
next
  case (Suc d)
  then have i: "i < length ws" by simp
  have upt: "[i..<length ws] = i # [Suc i..<length ws]"
    using i by (simp add: upt_conv_Cons)
  have drp: "drop i ws = ws ! i # drop (Suc i) ws"
    using i by (simp add: Cons_nth_drop_Suc)
  have r: "readArray h a = ws"
    using Suc.prems(1) by (simp add: readArray_def)
  show ?case
  proof (cases "rnd k < rate")
    case True
    show ?thesis
    proof (cases "randomNormal rnd (k + 1)")
      case None
      with True show ?thesis
        by (simp add: upt drp)
    next
      case (Some zk)
      obtain z k1 where zk: "zk = (z, k1)" by (cases zk)
      let ?v = "ws ! i + z * (2/10)"
      let ?h1 = "writeArray h a i ?v"
      have a1: "arrayAt ?h1 a = Some (ws[i := ?v])"
        by (simp add: writeArray_def r)
      have d: "d = length (ws[i := ?v]) - Suc i"
        using Suc.hyps(2) by simp
      have le: "Suc i \<le> length (ws[i := ?v])"
        using i by simp
      from Suc.hyps(1) [OF d a1 le, of k1]
      have "heapAdaptLoop rnd k1 rate a [Suc i..<length ws] ?h1 =
          map_option (\<lambda>(ws', k'). (?h1\<lparr>arrayAt := (arrayAt ?h1)(a \<mapsto> take (Suc i) (ws[i := ?v]) @ ws')\<rparr>, k'))
            (adaptWeights rnd k1 rate (drop (Suc i) (ws[i := ?v])))"
        by simp
      moreover have "take (Suc i) (ws[i := ?v]) = take i ws @ [?v]"
        using i by (simp add: take_Suc_conv_app_nth)
      moreover have "drop (Suc i) (ws[i := ?v]) = drop (Suc i) ws"
        by simp
      moreover have "?h1\<lparr>arrayAt := (arrayAt ?h1)(a \<mapsto> X)\<rparr> = h\<lparr>arrayAt := (arrayAt h)(a \<mapsto> X)\<rparr>" for X
        by (simp add: writeArray_def)
      ultimately show ?thesis
        using True Some zk r by (simp add: upt drp split: option.splits)
    qed
  next
    case False
    have d: "d = length ws - Suc i"
      using Suc.hyps(2) by simp
    have le: "Suc i \<le> length ws"
      using i by simp
    from Suc.hyps(1) [OF d Suc.prems(1) le, of "k + 1"] False
    show ?thesis
      by (simp add: upt drp take_Suc_conv_app_nth [OF i] split: option.splits)
  qed
qed

lemma heapOverwrite_refines:
  assumes "arrayAt h a = Some ws" "arrayAt h src = Some ps" "src \<noteq> a" "length ps = length ws"
  shows "heapOverwrite a src [i..<length ws] h =
           h\<lparr>arrayAt := (arrayAt h)(a \<mapsto> take i ws @ drop i ps)\<rparr>"
  using assms
proof (induction "length ws - i" arbitrary: i h ws)
  case 0
  then have e: "length ws \<le> i" by simp
  have "h\<lparr>arrayAt := (arrayAt h)(a \<mapsto> ws)\<rparr> = h"
    using "0.prems"(1) by (rule heap_array_update_same)
  then show ?case
    using e "0.prems"(4) by (simp add: fun_upd_def)
next
  case (Suc d)
  then have i: "i < length ws" by simp
  have upt: "[i..<length ws] = i # [Suc i..<length ws]"
    using i by (simp add: upt_conv_Cons)
  have drp: "drop i ps = ps ! i # drop (Suc i) ps"
    using i Suc.prems(4) by (simp add: Cons_nth_drop_Suc)
  have r: "readArray h src = ps"
    using Suc.prems(2) by (simp add: readArray_def)
  have ra: "readArray h a = ws"
    using Suc.prems(1) by (simp add: readArray_def)
  let ?h1 = "writeArray h a i (ps ! i)"
  have a1: "arrayAt ?h1 a = Some (ws[i := ps ! i])" "arrayAt ?h1 src = Some ps"
    using Suc.prems(2,3) by (simp_all add: writeArray_def ra)
  have d: "d = length (ws[i := ps ! i]) - Suc i"
    using Suc.hyps(2) by simp
  have len: "length ps = length (ws[i := ps ! i])"
    using Suc.prems(4) by simp
  from Suc.hyps(1) [OF d a1 Suc.prems(3) len]
  have "heapOverwrite a src [Suc i..<length ws] ?h1 =
      ?h1\<lparr>arrayAt := (arrayAt ?h1)(a \<mapsto> take (Suc i) (ws[i := ps ! i]) @ drop (Suc i) ps)\<rparr>"
    by simp
  moreover have "take (Suc i) (ws[i := ps ! i]) = take i ws @ [ps ! i]"
    using i by (simp add: take_Suc_conv_app_nth)
  moreover have "?h1\<lparr>arrayAt := (arrayAt ?h1)(a \<mapsto> X)\<rparr> = h\<lparr>arrayAt := (arrayAt h)(a \<mapsto> X)\<rparr>" for X
    by (simp add: writeArray_def)
  ultimately show ?case
    using r by (simp add: upt drp)
qed

lemma heapApplyPoints_refines:
  assumes "w1 \<noteq> a" "w2 \<noteq> a" "length p1 = len" "length p2 = len"
  shows "arrayAt h a = Some cw \<Longrightarrow> length cw = len \<Longrightarrow>
         arrayAt h w1 = Some p1 \<Longrightarrow> arrayAt h w2 = Some p2 \<Longrightarrow>
         heapApplyPoints points cur a w1 w2 len h =
           h\<lparr>arrayAt := (arrayAt h)(a \<mapsto> applyPoints points cur cw p1 p2)\<rparr>"
proof (induction points arbitrary: cur h cw)
  case Nil
  have "h\<lparr>arrayAt := (arrayAt h)(a \<mapsto> cw)\<rparr> = h"
    using Nil(1) by (rule heap_array_update_same)
  then show ?case
    by (simp only: heapApplyPoints.simps applyPoints.simps)
next
  case (Cons point points)
  have step: "heapApplyPoints points nxt a w1 w2 len (heapOverwrite a src [point..<len] h) =
      h\<lparr>arrayAt := (arrayAt h)(a \<mapsto> applyPoints points nxt (overwriteFrom point cw ps) p1 p2)\<rparr>"
    if src: "arrayAt h src = Some ps" "src \<noteq> a" "length ps = len" for src ps nxt
  proof -
    let ?cw1 = "take point cw @ drop point ps"
    let ?h1 = "h\<lparr>arrayAt := (arrayAt h)(a \<mapsto> ?cw1)\<rparr>"
    have o: "heapOverwrite a src [point..<len] h = ?h1"
      using heapOverwrite_refines [OF Cons.prems(1) src(1,2), of point] src(3) Cons.prems(2) by simp
    have a1: "arrayAt ?h1 a = Some ?cw1" "arrayAt ?h1 w1 = Some p1" "arrayAt ?h1 w2 = Some p2"
      using assms(1,2) Cons.prems(3,4) by simp_all
    have l1: "length ?cw1 = len"
      using src(3) Cons.prems(2) by simp
    have "heapApplyPoints points nxt a w1 w2 len ?h1 =
        ?h1\<lparr>arrayAt := (arrayAt ?h1)(a \<mapsto> applyPoints points nxt ?cw1 p1 p2)\<rparr>"
      by (rule Cons.IH [OF a1(1) l1 a1(2,3)])
    then show ?thesis
      by (simp add: o overwriteFrom_def)
  qed
  show ?case
  proof (cases "cur = 2")
    case True
    with step [OF Cons.prems(4) assms(2,4), of 1] show ?thesis by (simp add: fun_upd_def)
  next
    case False
    with step [OF Cons.prems(3) assms(1,3), of 2] show ?thesis by (simp add: fun_upd_def)
  qed
qed

lemma heapNewGenome_result:
  assumes "heapNewGenome h = (child, h1)"
  shows "child = nextFree h + 1 \<and>
         h1 = h\<lparr>arrayAt := (arrayAt h)(nextFree h \<mapsto> []),
                genomeAt := (genomeAt h)(child \<mapsto> \<lparr>weightsAt = nextFree h, rateOf = 5/100\<rparr>),
                nextFree := nextFree h + 2\<rparr>"
  using assms
  by (auto simp: heapNewGenome_def allocArray_def allocGenome_def Let_def)

lemma wellFormed_genome:
  assumes "wellFormed h" "genomeAt h p = Some obj"
  shows "p < nextFree h" "weightsAt obj < nextFree h" "\<exists>ws. arrayAt h (weightsAt obj) = Some ws"
proof -
  from assms show "p < nextFree h"
    unfolding wellFormed_def by blast
  from assms show e: "\<exists>ws. arrayAt h (weightsAt obj) = Some ws"
    unfolding wellFormed_def by blast
  with assms(1) show "weightsAt obj < nextFree h"
    unfolding wellFormed_def by blast
qed

lemma heapCrossover_setup:
  assumes wf: "wellFormed h"
    and p1: "genomeAt h parent1 = Some o1" and p2: "genomeAt h parent2 = Some o2"
    and n: "heapNewGenome h = (c, h1)"
  shows "c = nextFree h + 1" "nextFree h1 = nextFree h + 2" "rateAt h1 c = 5/100"
    "genomeAt h1 parent1 = Some o1" "genomeAt h1 parent2 = Some o2"
    "arrayAt h1 (weightsAt o1) = arrayAt h (weightsAt o1)"
    "arrayAt h1 (weightsAt o2) = arrayAt h (weightsAt o2)"
    "genomeAt h1 c = Some \<lparr>weightsAt = nextFree h, rateOf = 5/100\<rparr>"
proof -
  note r = heapNewGenome_result [OF n]
  note l1 = wellFormed_genome [OF wf p1]
  note l2 = wellFormed_genome [OF wf p2]
  from r show c: "c = nextFree h + 1" by simp
  have h1: "h1 = h\<lparr>arrayAt := (arrayAt h)(nextFree h \<mapsto> []),
                genomeAt := (genomeAt h)(c \<mapsto> \<lparr>weightsAt = nextFree h, rateOf = 5/100\<rparr>),
                nextFree := nextFree h + 2\<rparr>"
    using r by simp
  show "nextFree h1 = nextFree h + 2"
    by (simp add: h1)
  show "genomeAt h1 c = Some \<lparr>weightsAt = nextFree h, rateOf = 5/100\<rparr>"
    by (simp add: h1)
  then show "rateAt h1 c = 5/100"
    by (simp add: rateAt_def)
  show "genomeAt h1 parent1 = Some o1" "genomeAt h1 parent2 = Some o2"
    using p1 p2 l1(1) l2(1) c by (simp_all add: h1)
  show "arrayAt h1 (weightsAt o1) = arrayAt h (weightsAt o1)"
    "arrayAt h1 (weightsAt o2) = arrayAt h (weightsAt o2)"
    using l1(2) l2(2) by (simp_all add: h1)
qed

lemma heapCrossover_refines:
  assumes wf: "wellFormed h"
    and p1: "genomeAt h parent1 = Some o1" and p2: "genomeAt h parent2 = Some o2"
  shows "map_sum id (\<lambda>(child, h', k'). (readGenome h' child, k'))
           (heapCrossover rnd k h parent1 parent2 ty)
         = crossover rnd k (readGenome h parent1) (readGenome h parent2) ty"
proof -
  obtain c h1 where n: "heapNewGenome h = (c, h1)"
    by (cases "heapNewGenome h")
  note s = heapCrossover_setup [OF wf p1 p2 n]
  note l1 = wellFormed_genome [OF wf p1]
  note l2 = wellFormed_genome [OF wf p2]
  from l1(3) l2(3) obtain ws1 ws2 where
    w: "arrayAt h (weightsAt o1) = Some ws1" "arrayAt h (weightsAt o2) = Some ws2"
    by blast
  let ?a = "nextFree h + 2"
  have rd1: "weightsOf h1 parent1 = ws1" "weightsOf h1 parent2 = ws2"
    using s(4,5,6,7) w by (simp_all add: weightsOf_def readArray_def)
  have rd: "readGenome h parent1 = \<lparr>weights = ws1, mutationRate = rateOf o1\<rparr>"
    "readGenome h parent2 = \<lparr>weights = ws2, mutationRate = rateOf o2\<rparr>"
    using p1 p2 w by (simp_all add: weightsOf_def readArray_def readGenome_def rateAt_def)
  show ?thesis
  proof (cases "length ws1 = length ws2")
    case False
    have "heapCrossover rnd k h parent1 parent2 ty = Inl GenomeLengthMismatch"
      using False by (simp add: heapCrossover_def n rd1)
    moreover have "crossover rnd k (readGenome h parent1) (readGenome h parent2) ty = Inl GenomeLengthMismatch"
      using False by (simp add: crossover_def rd Let_def cong: if_cong)
    ultimately show ?thesis by simp
  next
    case len: True
    have alloc: "allocArray h1 X = (?a, h1\<lparr>arrayAt := (arrayAt h1)(?a \<mapsto> X), nextFree := ?a + 1\<rparr>)" for X
      by (simp add: allocArray_def s(2))
    have fresh: "readGenome (setWeights (h1\<lparr>arrayAt := (arrayAt h1)(?a \<mapsto> X), nextFree := ?a + 1\<rparr>) c ?a) c
        = newGenome X" for X
    proof -
      have "rateAt (h1\<lparr>arrayAt := (arrayAt h1)(?a \<mapsto> X), nextFree := ?a + 1\<rparr>) c = 5/100"
        using s(3) by (simp add: rateAt_def)
      then show ?thesis
        by (simp add: readGenome_def weightsOf_def readArray_def rateAt_def setWeights_def newGenome_def)
    qed
    show ?thesis
    proof (cases ty)
      case UNIFORM
      have "heapCrossover rnd k h parent1 parent2 ty =
          Inr (c, setWeights (h1\<lparr>arrayAt := (arrayAt h1)(?a \<mapsto>
                 map (\<lambda>i. if rnd (k + i) < 1/2 then ws1 ! i else ws2 ! i) [0..<length ws1]),
                 nextFree := ?a + 1\<rparr>) c ?a, k + length ws1)"
        using len UNIFORM by (simp add: heapCrossover_def n rd1 alloc Let_def cong: if_cong)
      moreover have "crossover rnd k (readGenome h parent1) (readGenome h parent2) ty =
          Inr (newGenome (map (\<lambda>i. if rnd (k + i) < 1/2 then ws1 ! i else ws2 ! i) [0..<length ws1]),
               k + length ws1)"
        using len UNIFORM by (simp add: crossover_def rd Let_def cong: if_cong)
      ultimately show ?thesis
        by (simp only: map_sum.simps prod.case fresh id_apply)
    next
      case SINGLE_POINT
      have "heapCrossover rnd k h parent1 parent2 ty =
          Inr (c, setWeights (h1\<lparr>arrayAt := (arrayAt h1)(?a \<mapsto>
                 take (randomIndex rnd k (length ws1)) ws1 @ drop (randomIndex rnd k (length ws1)) ws2),
                 nextFree := ?a + 1\<rparr>) c ?a, k + 1)"
        using len SINGLE_POINT by (simp add: heapCrossover_def n rd1 alloc Let_def cong: if_cong)
      moreover have "crossover rnd k (readGenome h parent1) (readGenome h parent2) ty =
          Inr (newGenome (take (randomIndex rnd k (length ws1)) ws1 @ drop (randomIndex rnd k (length ws1)) ws2),
               k + 1)"
        using len SINGLE_POINT by (simp add: crossover_def rd Let_def cong: if_cong)
      ultimately show ?thesis
        by (simp only: map_sum.simps prod.case fresh id_apply)
    next
      case MULTI_POINT
      let ?n = "randomIndex rnd k 3 + 2"
      let ?pts = "sort (map (\<lambda>j. randomIndex rnd (k + 1 + j) (length ws1)) [0..<?n])"
      let ?h2 = "h1\<lparr>arrayAt := (arrayAt h1)(?a \<mapsto> ws1), nextFree := ?a + 1\<rparr>"
      let ?h3 = "setWeights ?h2 c ?a"
      have ne: "parent1 \<noteq> c" "parent2 \<noteq> c" "weightsAt o1 \<noteq> ?a" "weightsAt o2 \<noteq> ?a"
        using l1(1,2) l2(1,2) s(1) by simp_all
      have g3: "genomeAt ?h3 parent1 = Some o1" "genomeAt ?h3 parent2 = Some o2"
        using ne(1,2) s(4,5) by (simp_all add: setWeights_def)
      have a3: "arrayAt ?h3 ?a = Some ws1" "arrayAt ?h3 (weightsAt o1) = Some ws1"
        "arrayAt ?h3 (weightsAt o2) = Some ws2"
        using ne(3,4) s(6,7) w by (simp_all add: setWeights_def)
      have ap: "heapApplyPoints ?pts 2 ?a (weightsAt o1) (weightsAt o2) (length ws1) ?h3 =
          ?h3\<lparr>arrayAt := (arrayAt ?h3)(?a \<mapsto> applyPoints ?pts 2 ws1 ws1 ws2)\<rparr>"
        using ne(3,4) len a3
        by (intro heapApplyPoints_refines [where ?p1.0 = ws1 and ?p2.0 = ws2 and cw = ws1]) simp_all
      have rate3: "rateAt ?h3 c = 5/100"
        using s(3) by (simp add: rateAt_def setWeights_def)
      have gc: "genomeAt ?h3 c = Some \<lparr>weightsAt = ?a, rateOf = 5/100\<rparr>"
        using s(3) by (simp add: setWeights_def rateAt_def)
      have final: "readGenome (?h3\<lparr>arrayAt := (arrayAt ?h3)(?a \<mapsto> X)\<rparr>) c = newGenome X" for X
        using gc by (simp add: readGenome_def weightsOf_def readArray_def rateAt_def newGenome_def)
      have "heapCrossover rnd k h parent1 parent2 ty =
          Inr (c, heapApplyPoints ?pts 2 ?a (weightsAt o1) (weightsAt o2) (length ws1) ?h3, k + 1 + ?n)"
        using len MULTI_POINT g3 by (simp add: heapCrossover_def n rd1 alloc Let_def)
      moreover have "crossover rnd k (readGenome h parent1) (readGenome h parent2) ty =
          Inr (newGenome (applyPoints ?pts 2 ws1 ws1 ws2), k + 1 + ?n)"
        using len MULTI_POINT by (simp add: crossover_def rd Let_def)
      ultimately show ?thesis
        by (simp only: map_sum.simps prod.case ap final id_apply)
    qed
  qed
qed

lemma heapMutateSelfAdaptive_refines:
  assumes wf: "wellFormed h" and g: "genomeAt h g = Some obj"
  shows "map_option (\<lambda>(newG, h', k'). (readGenome h' newG, k')) (heapMutateSelfAdaptive rnd k h g)
         = mutateSelfAdaptive rnd k (readGenome h g)"
proof -
  obtain g1 h1 where c: "heapCopy h g = (g1, h1)"
    by (cases "heapCopy h g")
  let ?a = "nextFree h"
  let ?ws = "weightsOf h g"
  from heapCopy_result [OF wf c] have
    g1: "g1 = nextFree h + 1"
    and h1: "h1 = h\<lparr>arrayAt := (arrayAt h)(?a \<mapsto> ?ws),
                  genomeAt := (genomeAt h)(g1 \<mapsto> \<lparr>weightsAt = ?a, rateOf = rateAt h g\<rparr>),
                  nextFree := nextFree h + 2\<rparr>"
    by auto
  have gne: "g \<noteq> g1"
    using wellFormed_genome(1) [OF wf g] g1 by simp
  have r1: "rateAt h1 g = rateAt h g"
    using gne by (simp add: h1 rateAt_def)
  obtain rate k1 where ar: "adaptRate rnd k (rateAt h g) = (rate, k1)"
    by (cases "adaptRate rnd k (rateAt h g)")
  let ?h2 = "if rnd k < 1/10 then setRate h1 g1 rate else h1"
  have keep: "rate = rateAt h g" if "\<not> rnd k < 1/10"
    using ar that by (simp add: adaptRate_def)
  have g2: "genomeAt ?h2 g1 = Some \<lparr>weightsAt = ?a, rateOf = rate\<rparr>"
    using keep by (simp add: h1 setRate_def)
  have a2: "arrayAt ?h2 ?a = Some ?ws"
    by (simp add: h1 setRate_def)
  have rd2: "readArray ?h2 ?a = ?ws" "rateAt ?h2 g1 = rate"
    using g2 a2 by (simp_all only: readArray_def rateAt_def option.case GenomeObj.simps)
  from heapAdaptLoop_refines [OF a2, of 0 rnd k1 rate]
  have l: "heapAdaptLoop rnd k1 rate ?a [0..<length ?ws] ?h2 =
      map_option (\<lambda>(ws', k'). (?h2\<lparr>arrayAt := (arrayAt ?h2)(?a \<mapsto> ws')\<rparr>, k'))
        (adaptWeights rnd k1 rate ?ws)"
    by simp
  have hm: "heapMutateSelfAdaptive rnd k h g =
      (case heapAdaptLoop rnd k1 rate ?a [0..<length ?ws] ?h2 of
         None \<Rightarrow> None | Some (h3, k2) \<Rightarrow> Some (g1, h3, k2))"
    unfolding heapMutateSelfAdaptive_def c Let_def prod.case r1 ar
    by (simp only: g2 rd2 option.case GenomeObj.simps)
  have pm: "mutateSelfAdaptive rnd k (readGenome h g) =
      (case adaptWeights rnd k1 rate ?ws of
         None \<Rightarrow> None
       | Some (ws, k2) \<Rightarrow> Some (\<lparr>weights = ws, mutationRate = rate\<rparr>, k2))"
    by (simp add: mutateSelfAdaptive_def Genome_copy_def newGenome_def readGenome_def ar Let_def
        split: option.splits)
  have fin: "readGenome (?h2\<lparr>arrayAt := (arrayAt ?h2)(?a \<mapsto> X)\<rparr>) g1
      = \<lparr>weights = X, mutationRate = rate\<rparr>" for X
    using g2 by (simp add: readGenome_def weightsOf_def readArray_def rateAt_def)
  show ?thesis
  proof (cases "adaptWeights rnd k1 rate ?ws")
    case None
    then show ?thesis
      by (simp only: hm pm l option.case option.map)
  next
    case (Some p)
    obtain X k2 where p: "p = (X, k2)" by (cases p)
    show ?thesis
      unfolding hm pm l Some p
      by (simp only: option.case option.map prod.case fin)
  qed
qed

end
